theory Spec2Isabelle
  imports Complex_Main "HOL-Library.Sublist" "HOL-Library.AList"
begin

section \<open>The backup and restore engine of folder.py\<close>

text \<open>
  The development embeds the service controller, the copy engine, the metadata ledger and
  the two orchestrators of \<^verbatim>\<open>folder.py\<close>. Everything the script obtains from outside
  (the output of \<^verbatim>\<open>sc\<close>, environment expansion, failing system calls, the operator's
  answer, the clock) is a field of the record \<open>env\<close>; everything it changes (the file
  system, the ledger files) is a field of the record \<open>world\<close>, passed through every call
  together with the log of the external actions performed so far.
\<close>

subsection \<open>Python values\<close>

text \<open>Truthiness of an optional string: \<^verbatim>\<open>None\<close> and \<^verbatim>\<open>""\<close> are false.\<close>

definition truthy :: "string option \<Rightarrow> bool" where
  "truthy s = (case s of None \<Rightarrow> False | Some x \<Rightarrow> x \<noteq> [])"

text \<open>\<^verbatim>\<open>int(x)\<close> on a float truncates towards zero.\<close>

definition py_int :: "real \<Rightarrow> int" where
  "py_int x = (if 0 \<le> x then \<lfloor>x\<rfloor> else \<lceil>x\<rceil>)"

text \<open>\<^verbatim>\<open>str.lower\<close>, on the ASCII letters.\<close>

definition lower_char :: "char \<Rightarrow> char" where
  "lower_char c =
     (let n = (of_char c :: nat) in if 65 \<le> n \<and> n \<le> 90 then char_of (n + 32) else c)"

definition lower :: "string \<Rightarrow> string" where
  "lower s = map lower_char s"

subsection \<open>Windows paths (the functions of os.path the script calls)\<close>

text \<open>
  The script runs on Windows, so \<^verbatim>\<open>os.path\<close> is \<^verbatim>\<open>ntpath\<close>. Drive-letter prefixes are
  modelled; UNC prefixes are not.
\<close>

definition backslash :: char where
  "backslash = CHR 0x5C"

definition is_sep :: "char \<Rightarrow> bool" where
  "is_sep c = (c = backslash \<or> c = CHR ''/'')"

definition splitdrive :: "string \<Rightarrow> string \<times> string" where
  "splitdrive p =
     (if 2 \<le> length p \<and> p ! 1 = CHR '':'' then (take 2 p, drop 2 p) else ([], p))"

definition rstrip_seps :: "string \<Rightarrow> string" where
  "rstrip_seps s = rev (dropWhile is_sep (rev s))"

definition split_path :: "string \<Rightarrow> string \<times> string" where
  "split_path p =
     (let (d, r) = splitdrive p;
          tail = rev (takeWhile (\<lambda>c. \<not> is_sep c) (rev r));
          head = take (length r - length tail) r;
          head' = (if rstrip_seps head = [] then head else rstrip_seps head)
      in (d @ head', tail))"

definition basename :: "string \<Rightarrow> string" where
  "basename p = snd (split_path p)"

definition dirname :: "string \<Rightarrow> string" where
  "dirname p = fst (split_path p)"

definition join :: "string \<Rightarrow> string \<Rightarrow> string" where
  "join path p =
     (let (result_drive, result_path) = splitdrive path;
          (p_drive, p_path) = splitdrive p
      in if p_path \<noteq> [] \<and> is_sep (hd p_path) then
           (if p_drive = [] \<and> result_drive \<noteq> [] then result_drive else p_drive) @ p_path
         else if p_drive \<noteq> [] \<and> p_drive \<noteq> result_drive
                 \<and> lower p_drive \<noteq> lower result_drive then
           p_drive @ p_path
         else
           (if p_drive \<noteq> [] \<and> p_drive \<noteq> result_drive then p_drive else result_drive)
           @ (if result_path \<noteq> [] \<and> \<not> is_sep (last result_path)
              then result_path @ [backslash] else result_path)
           @ p_path)"

subsection \<open>The outside world\<close>

text \<open>
  A file is its content and its modification time (its size is the length of the
  content); a directory is its own size and modification time, as \<^verbatim>\<open>os.stat\<close> reports
  them, and its entries in listing order.
\<close>

datatype node = File string real | Dir nat real "(string \<times> node) list"

fun st_size :: "node \<Rightarrow> nat" where
  "st_size (File c m) = length c"
| "st_size (Dir s m es) = s"

fun st_mtime :: "node \<Rightarrow> real" where
  "st_mtime (File c m) = m"
| "st_mtime (Dir s m es) = m"

text \<open>One record of the ledger (\<^verbatim>\<open>meta_item\<close>); the last two keys are optional.\<close>

record meta_item =
  source :: string
  source_expanded :: string
  backup_name :: string
  item_type :: "string option"
  service :: "string option"
  exclude :: "string list option"

record metadata =
  backup_date :: string
  paths :: "meta_item list"

text \<open>
  What \<^verbatim>\<open>backup_metadata.json\<close> holds at a path: nothing, bytes that \<^verbatim>\<open>json.load\<close>
  rejects, or a document. Documents that parse but lack a key the script reads are not
  modelled.
\<close>

datatype ledger_file = NoFile | Unparsable | Parsed metadata

text \<open>The external actions of the script, in the order they are logged.\<close>

datatype event =
    Query string
  | StopRequest string
  | StartRequest string
  | Sleep
  | MakeDirs string
  | CopyFile string string
  | CopyTree string string
  | Remove string
  | RmTree string
  | Prompt
  | WriteLedger string

record world =
  trace :: "event list"
  files :: "string \<Rightarrow> node option"
  ledgers :: "string \<Rightarrow> ledger_file"

text \<open>The result of running \<^verbatim>\<open>sc query\<close>: \<^verbatim>\<open>subprocess.run\<close> raises, or there is output.\<close>

datatype sc_result = Raises | Stdout string

text \<open>One entry of \<^verbatim>\<open>backup_paths\<close> in the configuration: a string or a dictionary.\<close>

datatype config_item =
    PathStr string
  | PathDict "string option" "string option" "string list option" "string option"

record env =
  sc_query :: "event list \<Rightarrow> string \<Rightarrow> sc_result"
  sc_command_raises :: "event list \<Rightarrow> event \<Rightarrow> bool"
  io_fails :: "event list \<Rightarrow> event \<Rightarrow> bool"
  expandvars :: "string \<Rightarrow> string"
  normpath :: "string \<Rightarrow> string"
  backup_paths :: "config_item list"
  now :: string
  time_now :: real
  answer :: string

definition emit :: "event \<Rightarrow> world \<Rightarrow> world" where
  "emit e w = w\<lparr>trace := trace w @ [e]\<rparr>"

definition expand_path :: "env \<Rightarrow> string \<Rightarrow> string" where
  "expand_path E path = normpath E (expandvars E path)"

subsection \<open>Service controller\<close>

definition get_service_status :: "env \<Rightarrow> string \<Rightarrow> world \<Rightarrow> string option \<times> world" where
  "get_service_status E service_name w =
     (case sc_query E (trace w) service_name of
        Raises \<Rightarrow> (None, emit (Query service_name) w)
      | Stdout out \<Rightarrow>
          (if sublist ''RUNNING'' out then Some ''running''
           else if sublist ''STOPPED'' out then Some ''stopped''
           else Some ''unknown'',
           emit (Query service_name) w))"

text \<open>The polling loop \<^verbatim>\<open>for i in range(timeout)\<close>, by the iterations that remain.\<close>

fun wait_for :: "env \<Rightarrow> string \<Rightarrow> string \<Rightarrow> nat \<Rightarrow> world \<Rightarrow> bool \<times> world" where
  "wait_for E wanted service_name 0 w = (False, w)"
| "wait_for E wanted service_name (Suc k) w =
     (let (status, w') = get_service_status E service_name (emit Sleep w)
      in if status = Some wanted then (True, w')
         else wait_for E wanted service_name k w')"

definition stop_service :: "env \<Rightarrow> string \<Rightarrow> int \<Rightarrow> world \<Rightarrow> bool \<times> world" where
  "stop_service E service_name timeout w =
     (let (status, w1) = get_service_status E service_name w
      in if status = Some ''stopped'' then (True, w1)
         else if status = None then (False, w1)
         else if sc_command_raises E (trace w1) (StopRequest service_name) then (False, w1)
         else wait_for E ''stopped'' service_name (nat timeout)
                (emit (StopRequest service_name) w1))"

definition start_service :: "env \<Rightarrow> string \<Rightarrow> int \<Rightarrow> world \<Rightarrow> bool \<times> world" where
  "start_service E service_name timeout w =
     (let (status, w1) = get_service_status E service_name w
      in if status = Some ''running'' then (True, w1)
         else if status = None then (False, w1)
         else if sc_command_raises E (trace w1) (StartRequest service_name) then (False, w1)
         else wait_for E ''running'' service_name (nat timeout)
                (emit (StartRequest service_name) w1))"

subsection \<open>Copy engine\<close>

datatype error = OSError | JSONDecodeError

definition DEFAULT_EXCLUDE_FILES :: "string list" where
  "DEFAULT_EXCLUDE_FILES = [''desktop.ini'', ''Thumbs.db'', ''.DS_Store'']"

definition all_excludes :: "string list option \<Rightarrow> string set" where
  "all_excludes exclude_list =
     set DEFAULT_EXCLUDE_FILES \<union> (case exclude_list of None \<Rightarrow> {} | Some xs \<Rightarrow> set xs)"

definition make_ignore_func :: "string list option \<Rightarrow> string \<Rightarrow> string list \<Rightarrow> string list" where
  "make_ignore_func exclude_list =
     (\<lambda>directory files. filter (\<lambda>f. f \<in> all_excludes exclude_list) files)"

text \<open>
  \<^verbatim>\<open>shutil.copy2(src, dst)\<close> on the node found at \<open>src\<close> and the node, if any, at \<open>dst\<close>;
  the result is the node at \<open>dst\<close> afterwards. A destination that is a directory
  receives the file under the base name of \<open>src\<close>.
\<close>

definition copy2 :: "env \<Rightarrow> event list \<Rightarrow> string \<Rightarrow> string \<Rightarrow> node \<Rightarrow> node option \<Rightarrow> error + node" where
  "copy2 E tr src dst s d =
     (if io_fails E tr (CopyFile src dst) then Inl OSError
      else case s of
        Dir ssz sm ses \<Rightarrow> Inl OSError
      | File c m \<Rightarrow>
          (case d of
             None \<Rightarrow> Inr (File c m)
           | Some (File c' m') \<Rightarrow> Inr (File c m)
           | Some (Dir dsz dm des) \<Rightarrow>
               (case map_of des (basename src) of
                  Some (Dir xsz xm xes) \<Rightarrow> Inl OSError
                | Some (File c' m') \<Rightarrow>
                    Inr (Dir dsz dm (AList.update (basename src) (File c m) des))
                | None \<Rightarrow>
                    Inr (Dir dsz (time_now E)
                           (AList.update (basename src) (File c m) des)))))"

definition smart_copy2 :: "env \<Rightarrow> event list \<Rightarrow> string \<Rightarrow> string \<Rightarrow> node \<Rightarrow> node option \<Rightarrow> error + node" where
  "smart_copy2 E tr src dst s d =
     (case d of
        Some dn \<Rightarrow>
          (if st_size s = st_size dn \<and> py_int (st_mtime s) = py_int (st_mtime dn)
           then Inr dn
           else copy2 E tr src dst s d)
      | None \<Rightarrow> copy2 E tr src dst s d)"

text \<open>
  \<^verbatim>\<open>shutil.copytree\<close> with its parameters \<open>ignore\<close>, \<open>copy_function\<close> and
  \<open>dirs_exist_ok\<close>. It returns whether it raised and the node at \<open>dst\<close> afterwards:
  the errors of the entries are collected and raised at the end, after the other
  entries have been copied. A directory it creates has size 0 and, after
  \<^verbatim>\<open>copystat\<close>, the modification time of the source directory.
\<close>

fun copytree ::
    "env \<Rightarrow> event list \<Rightarrow> (string \<Rightarrow> string list \<Rightarrow> string list) option
     \<Rightarrow> (string \<Rightarrow> string \<Rightarrow> node \<Rightarrow> node option \<Rightarrow> error + node) \<Rightarrow> bool
     \<Rightarrow> string \<Rightarrow> string \<Rightarrow> node \<Rightarrow> node option \<Rightarrow> bool \<times> node option"
  and copy_entries ::
    "env \<Rightarrow> event list \<Rightarrow> (string \<Rightarrow> string list \<Rightarrow> string list) option
     \<Rightarrow> (string \<Rightarrow> string \<Rightarrow> node \<Rightarrow> node option \<Rightarrow> error + node) \<Rightarrow> bool
     \<Rightarrow> string list \<Rightarrow> string \<Rightarrow> string \<Rightarrow> (string \<times> node) list \<Rightarrow> (string \<times> node) list
     \<Rightarrow> bool \<times> (string \<times> node) list"
where
  "copytree E tr ignore copy_function dirs_exist_ok src dst (File c m) d = (True, d)"
| "copytree E tr ignore copy_function dirs_exist_ok src dst (Dir ssz sm entries) d =
     (let ignored_names =
            (case ignore of None \<Rightarrow> [] | Some f \<Rightarrow> f src (map fst entries))
      in case d of
           Some (File c m) \<Rightarrow> (True, d)
         | Some (Dir dsz dm des) \<Rightarrow>
             (if \<not> dirs_exist_ok then (True, d)
              else let (errors, des') =
                         copy_entries E tr ignore copy_function dirs_exist_ok
                           ignored_names src dst entries des
                   in (errors, Some (Dir dsz sm des')))
         | None \<Rightarrow>
             (if io_fails E tr (MakeDirs dst) then (True, None)
              else let (errors, des') =
                         copy_entries E tr ignore copy_function dirs_exist_ok
                           ignored_names src dst entries []
                   in (errors, Some (Dir 0 sm des'))))"
| "copy_entries E tr ignore copy_function dirs_exist_ok ignored_names src dst [] des =
     (False, des)"
| "copy_entries E tr ignore copy_function dirs_exist_ok ignored_names src dst
       ((name, File c m) # rest) des =
     (if name \<in> set ignored_names then
        copy_entries E tr ignore copy_function dirs_exist_ok ignored_names src dst rest des
      else
        (case copy_function (join src name) (join dst name) (File c m) (map_of des name) of
           Inl e \<Rightarrow>
             (True, snd (copy_entries E tr ignore copy_function dirs_exist_ok
                           ignored_names src dst rest des))
         | Inr n \<Rightarrow>
             copy_entries E tr ignore copy_function dirs_exist_ok ignored_names src dst rest
               (AList.update name n des)))"
| "copy_entries E tr ignore copy_function dirs_exist_ok ignored_names src dst
       ((name, Dir csz cm ces) # rest) des =
     (if name \<in> set ignored_names then
        copy_entries E tr ignore copy_function dirs_exist_ok ignored_names src dst rest des
      else
        (let (err, d') =
               copytree E tr ignore copy_function dirs_exist_ok (join src name) (join dst name)
                 (Dir csz cm ces) (map_of des name);
             des1 = (case d' of None \<Rightarrow> des | Some n \<Rightarrow> AList.update name n des);
             (errors, des2) =
               copy_entries E tr ignore copy_function dirs_exist_ok ignored_names src dst
                 rest des1
         in (err \<or> errors, des2)))"

text \<open>The paths of the entries below a node, each a list of names from the node down.\<close>

fun entry_paths :: "node \<Rightarrow> string list list" where
  "entry_paths (File c m) = []"
| "entry_paths (Dir s m es) =
     concat (map (\<lambda>(n, c). [n] # map ((#) n) (entry_paths c)) es)"

definition entry_paths_opt :: "node option \<Rightarrow> string list list" where
  "entry_paths_opt d = (case d of None \<Rightarrow> [] | Some n \<Rightarrow> entry_paths n)"

subsection \<open>Metadata ledger\<close>

definition METADATA_NAME :: string where
  "METADATA_NAME = ''backup_metadata.json''"

text \<open>
  Lines 288 to 298 of \<^verbatim>\<open>backup\<close>: the map from expanded source to backup folder name,
  read from the ledger already at the destination. A later record overrides an earlier
  one; a missing file and a parse failure both leave the map empty.
\<close>

definition remember :: "meta_item \<Rightarrow> (string \<rightharpoonup> string) \<Rightarrow> (string \<rightharpoonup> string)" where
  "remember item m = m(source_expanded item \<mapsto> backup_name item)"

definition existing_backup_map :: "world \<Rightarrow> string \<Rightarrow> (string \<rightharpoonup> string)" where
  "existing_backup_map w meta_file =
     (case ledgers w meta_file of
        NoFile \<Rightarrow> Map.empty
      | Unparsable \<Rightarrow> Map.empty
      | Parsed existing_meta \<Rightarrow> fold remember (paths existing_meta) Map.empty)"

text \<open>Lines 335 to 349: fixed destination, else the name in the ledger, else a new name.\<close>

definition resolve_backup_name :: "string option \<Rightarrow> (string \<rightharpoonup> string) \<Rightarrow> string \<Rightarrow> string" where
  "resolve_backup_name custom_destination existing expanded_path =
     (if truthy custom_destination then the custom_destination
      else case existing expanded_path of
             Some folder_name \<Rightarrow> folder_name
           | None \<Rightarrow> basename (dirname expanded_path) @ ''_'' @ basename expanded_path)"

subsection \<open>Backup orchestrator\<close>

record path_info =
  item_path :: string
  item_service :: "string option"
  item_exclude :: "string list"
  item_destination :: "string option"

fun normalize_path_item :: "config_item \<Rightarrow> path_info" where
  "normalize_path_item (PathStr item) =
     \<lparr>item_path = item, item_service = None, item_exclude = [], item_destination = None\<rparr>"
| "normalize_path_item (PathDict p s e d) =
     \<lparr>item_path = (case p of None \<Rightarrow> [] | Some x \<Rightarrow> x), item_service = s,
      item_exclude = (case e of None \<Rightarrow> [] | Some xs \<Rightarrow> xs), item_destination = d\<rparr>"

record run =
  wld :: world
  success_count :: nat
  fail_count :: nat

record bstate = run +
  meta_paths :: "meta_item list"
  services_to_restart :: "string list"

text \<open>
  Lines 318 to 326: stop the service of an entry if it is observed running. The first
  component says whether the entry goes on (\<open>False\<close> is the \<^verbatim>\<open>continue\<close>).
\<close>

definition pause_service :: "env \<Rightarrow> string option \<Rightarrow> bstate \<Rightarrow> bool \<times> bstate" where
  "pause_service E service_name st =
     (if truthy service_name then
        (let (original_status, w1) = get_service_status E (the service_name) (wld st)
         in if original_status = Some ''running'' then
              (let (stopped, w2) = stop_service E (the service_name) 30 w1
               in if \<not> stopped then
                    (False, st\<lparr>wld := w2, fail_count := fail_count st + 1\<rparr>)
                  else
                    (True, st\<lparr>wld := w2,
                       services_to_restart := services_to_restart st @ [the service_name]\<rparr>))
            else (True, st\<lparr>wld := w1\<rparr>))
      else (True, st))"

text \<open>
  Lines 351 to 387: the copy of one entry inside \<^verbatim>\<open>try\<close>. An exception counts a failure and
  records nothing, but keeps what \<^verbatim>\<open>copytree\<close> had copied before it raised.
\<close>

definition copy_item :: "env \<Rightarrow> path_info \<Rightarrow> string \<Rightarrow> string \<Rightarrow> string \<Rightarrow> bstate \<Rightarrow> bstate" where
  "copy_item E info expanded_path folder_name dest_path st =
     (let w = wld st;
          meta_item = \<lparr>source = item_path info, source_expanded = expanded_path,
                       backup_name = folder_name,
                       item_type = Some (case files w expanded_path of
                                           Some (File c m) \<Rightarrow> ''file'' | _ \<Rightarrow> ''directory''),
                       service = (if truthy (item_service info) then item_service info else None),
                       exclude = (if item_exclude info \<noteq> [] then Some (item_exclude info)
                                  else None)\<rparr>
      in case files w expanded_path of
           Some (File c m) \<Rightarrow>
             (case smart_copy2 E (trace w) expanded_path dest_path (File c m)
                     (files w dest_path) of
                Inl e \<Rightarrow>
                  st\<lparr>wld := emit (CopyFile expanded_path dest_path) w,
                     fail_count := fail_count st + 1\<rparr>
              | Inr n \<Rightarrow>
                  st\<lparr>wld := emit (CopyFile expanded_path dest_path)
                              (w\<lparr>files := (files w)(dest_path \<mapsto> n)\<rparr>),
                     success_count := success_count st + 1,
                     meta_paths := meta_paths st @ [meta_item]\<rparr>)
         | Some (Dir sz m es) \<Rightarrow>
             (let (raised, d') =
                    copytree E (trace w) (Some (make_ignore_func (Some (item_exclude info))))
                      (smart_copy2 E (trace w)) True expanded_path dest_path (Dir sz m es)
                      (files w dest_path);
                  w' = emit (CopyTree expanded_path dest_path)
                         (w\<lparr>files := (files w)(dest_path := d')\<rparr>)
              in if raised then st\<lparr>wld := w', fail_count := fail_count st + 1\<rparr>
                 else st\<lparr>wld := w', success_count := success_count st + 1,
                         meta_paths := meta_paths st @ [meta_item]\<rparr>)
         | None \<Rightarrow> st\<lparr>fail_count := fail_count st + 1\<rparr>)"

text \<open>The body of the loop over the registered entries, lines 307 to 387.\<close>

definition backup_item ::
    "env \<Rightarrow> string \<Rightarrow> (string \<rightharpoonup> string) \<Rightarrow> config_item \<Rightarrow> bstate \<Rightarrow> bstate" where
  "backup_item E backup_folder existing item st =
     (let info = normalize_path_item item;
          expanded_path = expand_path E (item_path info);
          (go_on, st1) = pause_service E (item_service info) st
      in if \<not> go_on then st1
         else if files (wld st1) expanded_path = None then
           st1\<lparr>fail_count := fail_count st1 + 1\<rparr>
         else
           (let folder_name =
                  resolve_backup_name (item_destination info) existing expanded_path;
                dest_path = join backup_folder folder_name
            in copy_item E info expanded_path folder_name dest_path st1))"

definition restart_services :: "env \<Rightarrow> string list \<Rightarrow> world \<Rightarrow> world" where
  "restart_services E names w = fold (\<lambda>n w'. snd (start_service E n 30 w')) names w"

text \<open>
  \<^verbatim>\<open>backup(destination)\<close>. The result is the value returned, or the exception that
  leaves the function, and the state of the run at that point.
\<close>

definition backup :: "env \<Rightarrow> string \<Rightarrow> world \<Rightarrow> (error + bool) \<times> bstate" where
  "backup E destination w =
     (let st0 = \<lparr>wld = w, success_count = 0, fail_count = 0, meta_paths = [],
                 services_to_restart = []\<rparr>;
          backup_folder = normpath E destination
      in if backup_paths E = [] then (Inr False, st0)
         else if io_fails E (trace w) (MakeDirs backup_folder)
                 \<or> (case files w backup_folder of Some (File c m) \<Rightarrow> True | _ \<Rightarrow> False) then
           (Inr False, st0)
         else
           (let w1 = emit (MakeDirs backup_folder)
                       (case files w backup_folder of
                          None \<Rightarrow> w\<lparr>files := (files w)(backup_folder \<mapsto> Dir 0 (time_now E) [])\<rparr>
                        | Some d \<Rightarrow> w);
                meta_file = join backup_folder METADATA_NAME;
                existing = existing_backup_map w1 meta_file;
                st1 = fold (backup_item E backup_folder existing) (backup_paths E)
                        (st0\<lparr>wld := w1\<rparr>);
                w2 = restart_services E (services_to_restart st1) (wld st1)
            in if io_fails E (trace w2) (WriteLedger meta_file) then
                 (Inl OSError, st1\<lparr>wld := w2\<rparr>)
               else
                 (Inr True,
                  st1\<lparr>wld := emit (WriteLedger meta_file)
                               (w2\<lparr>ledgers := (ledgers w2)
                                     (meta_file := Parsed \<lparr>backup_date = now E,
                                                          paths = meta_paths st1\<rparr>)\<rparr>)\<rparr>)))"

subsection \<open>Restore orchestrator\<close>

definition find_backup_root :: "env \<Rightarrow> world \<Rightarrow> string \<Rightarrow> string \<times> string option" where
  "find_backup_root E w input_path =
     (let p = normpath E input_path
      in if ledgers w (join p METADATA_NAME) \<noteq> NoFile then (p, None)
         else if ledgers w (join (dirname p) METADATA_NAME) \<noteq> NoFile then
           (dirname p, Some (basename p))
         else (p, None))"

text \<open>
  The dictionary \<^verbatim>\<open>service_groups\<close>, lines 474 to 479: the records by service, the groups
  in the order their services first appear.
\<close>

definition service_groups :: "meta_item list \<Rightarrow> (string option \<times> meta_item list) list" where
  "service_groups restore_items =
     fold (\<lambda>item groups.
             (case map_of groups (service item) of
                None \<Rightarrow> groups @ [(service item, [item])]
              | Some items \<Rightarrow> AList.update (service item) (items @ [item]) groups))
       restore_items []"

text \<open>
  Lines 517 to 529, inside \<^verbatim>\<open>try\<close>: remove what is at the original location, then copy the
  backed-up item there. \<open>Inl\<close> is the exception; the world is returned as far as it got.
\<close>

definition remove_existing :: "env \<Rightarrow> string \<Rightarrow> world \<Rightarrow> error + world" where
  "remove_existing E target_path w =
     (case files w target_path of
        None \<Rightarrow> Inr w
      | Some (File c m) \<Rightarrow>
          (if io_fails E (trace w) (Remove target_path) then Inl OSError
           else Inr (emit (Remove target_path)
                       (w\<lparr>files := (files w)(target_path := None)\<rparr>)))
      | Some (Dir sz m es) \<Rightarrow>
          (if io_fails E (trace w) (RmTree target_path) then Inl OSError
           else Inr (emit (RmTree target_path)
                       (w\<lparr>files := (files w)(target_path := None)\<rparr>))))"

definition put_back :: "env \<Rightarrow> meta_item \<Rightarrow> string \<Rightarrow> string \<Rightarrow> node \<Rightarrow> world \<Rightarrow> bool \<times> world" where
  "put_back E item backup_item_path target_path b w =
     (if (case item_type item of None \<Rightarrow> ''directory'' | Some t \<Rightarrow> t) = ''file'' then
        (if io_fails E (trace w) (MakeDirs (dirname target_path)) then (True, w)
         else
           (let w1 = emit (MakeDirs (dirname target_path)) w
            in case copy2 E (trace w1) backup_item_path target_path b
                      (files w1 target_path) of
                 Inl e \<Rightarrow> (True, emit (CopyFile backup_item_path target_path) w1)
               | Inr n \<Rightarrow>
                   (False, emit (CopyFile backup_item_path target_path)
                             (w1\<lparr>files := (files w1)(target_path \<mapsto> n)\<rparr>))))
      else
        (let (raised, d') =
               copytree E (trace w) None (copy2 E (trace w)) False backup_item_path
                 target_path b (files w target_path)
         in (raised, emit (CopyTree backup_item_path target_path)
                       (w\<lparr>files := (files w)(target_path := d')\<rparr>))))"

text \<open>The body of the loop over the records of a group, lines 500 to 536.\<close>

definition restore_item :: "env \<Rightarrow> string \<Rightarrow> meta_item \<Rightarrow> run \<Rightarrow> run" where
  "restore_item E backup_path item st =
     (let target_path = expand_path E (source item);
          backup_item_path = join backup_path (backup_name item);
          w = wld st
      in case files w backup_item_path of
           None \<Rightarrow> st\<lparr>fail_count := fail_count st + 1\<rparr>
         | Some b \<Rightarrow>
             (case remove_existing E target_path w of
                Inl e \<Rightarrow> st\<lparr>fail_count := fail_count st + 1\<rparr>
              | Inr w1 \<Rightarrow>
                  (let (raised, w2) = put_back E item backup_item_path target_path b w1
                   in if raised then st\<lparr>wld := w2, fail_count := fail_count st + 1\<rparr>
                      else st\<lparr>wld := w2, success_count := success_count st + 1\<rparr>)))"

text \<open>The body of the loop over the groups, lines 485 to 540.\<close>

definition restore_group :: "env \<Rightarrow> string \<Rightarrow> string option \<times> meta_item list \<Rightarrow> run \<Rightarrow> run" where
  "restore_group E backup_path service_group st =
     (let (service_name, items) = service_group;
          (service_was_running, go_on, st1) =
            (if truthy service_name then
               (let (status, w1) = get_service_status E (the service_name) (wld st)
                in if status = Some ''RUNNING'' then
                     (let (stopped, w2) = stop_service E (the service_name) 30 w1
                      in if \<not> stopped then
                           (True, False,
                            st\<lparr>wld := w2, fail_count := fail_count st + length items\<rparr>)
                         else (True, True, st\<lparr>wld := w2\<rparr>))
                   else (False, True, st\<lparr>wld := w1\<rparr>))
             else (False, True, st))
      in if \<not> go_on then st1
         else
           (let st2 = fold (restore_item E backup_path) items st1
            in if truthy service_name \<and> service_was_running then
                 st2\<lparr>wld := snd (start_service E (the service_name) 30 (wld st2))\<rparr>
               else st2))"

text \<open>
  \<^verbatim>\<open>restore(input_path, target)\<close>. The result is the value returned, or the exception
  that leaves the function, and the state of the run at that point.
\<close>

definition restore :: "env \<Rightarrow> string \<Rightarrow> string option \<Rightarrow> world \<Rightarrow> (error + bool) \<times> run" where
  "restore E input_path target0 w =
     (let st0 = \<lparr>wld = w, success_count = 0, fail_count = 0\<rparr>;
          (backup_path, auto_target) = find_backup_root E w input_path;
          target = (if truthy auto_target \<and> \<not> truthy target0 then auto_target else target0);
          metadata_file = join backup_path METADATA_NAME
      in if files w backup_path = None \<and> ledgers w metadata_file = NoFile then (Inr False, st0)
         else case ledgers w metadata_file of
           NoFile \<Rightarrow> (Inr False, st0)
         | Unparsable \<Rightarrow> (Inl JSONDecodeError, st0)
         | Parsed metadata \<Rightarrow>
             (let all_items = paths metadata;
                  restore_items =
                    (if truthy target then
                       filter (\<lambda>item. backup_name item = the target) all_items
                     else all_items)
              in if truthy target \<and> restore_items = [] then (Inr False, st0)
                 else if lower (answer E) \<noteq> ''y'' then (Inr False, st0\<lparr>wld := emit Prompt w\<rparr>)
                 else
                   (Inr True,
                    fold (restore_group E backup_path) (service_groups restore_items)
                      (st0\<lparr>wld := emit Prompt w\<rparr>))))"

section \<open>Auxiliary definitions\<close>

text \<open>The status that \<^verbatim>\<open>get_service_status\<close> reads off one result of \<^verbatim>\<open>sc query\<close>.\<close>

definition parse_status :: "sc_result \<Rightarrow> string option" where
  "parse_status r =
     (case r of
        Raises \<Rightarrow> None
      | Stdout out \<Rightarrow>
          (if sublist ''RUNNING'' out then Some ''running''
           else if sublist ''STOPPED'' out then Some ''stopped''
           else Some ''unknown''))"

text \<open>The test of \<^verbatim>\<open>smart_copy2\<close>: the destination exists with the size and the whole-second
  modification time of the source.\<close>

definition unchanged :: "node \<Rightarrow> node option \<Rightarrow> bool" where
  "unchanged s d =
     (case d of
        None \<Rightarrow> False
      | Some dn \<Rightarrow> st_size s = st_size dn \<and> py_int (st_mtime s) = py_int (st_mtime dn))"

definition not_a_directory :: "node option \<Rightarrow> bool" where
  "not_a_directory d = (case d of Some (Dir sz m es) \<Rightarrow> False | _ \<Rightarrow> True)"

text \<open>The events of the service controller.\<close>

fun is_service_event :: "event \<Rightarrow> bool" where
  "is_service_event (Query n) = True"
| "is_service_event (StopRequest n) = True"
| "is_service_event (StartRequest n) = True"
| "is_service_event Sleep = True"
| "is_service_event e = False"

text \<open>What a run of the service controller may change: it only adds service events.\<close>

definition service_only :: "world \<Rightarrow> world \<Rightarrow> bool" where
  "service_only w w' =
     (\<exists>evs. w' = w\<lparr>trace := trace w @ evs\<rparr> \<and> list_all is_service_event evs)"


text \<open>The state in which the loop of \<^verbatim>\<open>backup\<close> starts.\<close>

definition fresh_run :: "world \<Rightarrow> bstate" where
  "fresh_run w =
     \<lparr>wld = w, success_count = 0, fail_count = 0, meta_paths = [], services_to_restart = []\<rparr>"

text \<open>
  The parts of \<^verbatim>\<open>backup\<close>: when it returns before the loop, the world once the backup
  folder is made, and the state after the loop over the registered entries.
\<close>

definition backup_root_made :: "env \<Rightarrow> string \<Rightarrow> world \<Rightarrow> world" where
  "backup_root_made E bf w =
     emit (MakeDirs bf)
       (case files w bf of
          None \<Rightarrow> w\<lparr>files := (files w)(bf \<mapsto> Dir 0 (time_now E) [])\<rparr>
        | Some d \<Rightarrow> w)"

definition backup_loop :: "env \<Rightarrow> string \<Rightarrow> world \<Rightarrow> bstate" where
  "backup_loop E destination w =
     fold (backup_item E (normpath E destination)
             (existing_backup_map w (join (normpath E destination) METADATA_NAME)))
       (backup_paths E)
       ((fresh_run w)\<lparr>wld := backup_root_made E (normpath E destination) w\<rparr>)"

definition backup_refused :: "env \<Rightarrow> string \<Rightarrow> world \<Rightarrow> bool" where
  "backup_refused E destination w =
     (backup_paths E = []
      \<or> io_fails E (trace w) (MakeDirs (normpath E destination))
      \<or> (case files w (normpath E destination) of Some (File c m) \<Rightarrow> True | _ \<Rightarrow> False))"

text \<open>A record as the entry \<open>item\<close> produces it, given the names already in the ledger.\<close>

definition recorded_by :: "env \<Rightarrow> (string \<rightharpoonup> string) \<Rightarrow> config_item \<Rightarrow> meta_item \<Rightarrow> bool" where
  "recorded_by E existing item r =
     (source r = item_path (normalize_path_item item)
      \<and> source_expanded r = expand_path E (item_path (normalize_path_item item))
      \<and> backup_name r =
          resolve_backup_name (item_destination (normalize_path_item item)) existing
            (source_expanded r))"

text \<open>The records of a ledger file; none when there is no document.\<close>

definition ledger_paths :: "ledger_file \<Rightarrow> meta_item list" where
  "ledger_paths l = (case l of Parsed md \<Rightarrow> paths md | _ \<Rightarrow> [])"


text \<open>
  A name a directory entry can have on Windows: not empty, without a separator and
  without a colon.
\<close>

definition valid_name :: "string \<Rightarrow> bool" where
  "valid_name n = (n \<noteq> [] \<and> list_all (\<lambda>c. \<not> is_sep c \<and> c \<noteq> CHR '':'') n)"

fun valid_names :: "node \<Rightarrow> bool" where
  "valid_names (File c m) = True"
| "valid_names (Dir s m es) = list_all (\<lambda>(n, c). valid_name n \<and> valid_names c) es"

text \<open>
  The paths of the entries of a directory listing, and the property of a copy: every path
  that exists afterwards existed before or ends in a name outside \<open>X\<close>.
\<close>

definition entries_paths :: "(string \<times> node) list \<Rightarrow> string list list" where
  "entries_paths es = concat (map (\<lambda>(n, c). [n] # map ((#) n) (entry_paths c)) es)"

definition created_ok :: "string set \<Rightarrow> string list list \<Rightarrow> string list list \<Rightarrow> bool" where
  "created_ok X old new = (\<forall>p \<in> set new. p \<in> set old \<or> last p \<notin> X)"


subsection \<open>Scenarios\<close>

text \<open>
  A machine on which nothing fails, no path needs expansion, the operator answers
  \<^verbatim>\<open>y\<close> and \<^verbatim>\<open>sc query\<close> prints nothing; the scenarios below vary it.
\<close>

definition quiet_env :: env where
  "quiet_env =
     \<lparr>sc_query = (\<lambda>tr n. Stdout []), sc_command_raises = (\<lambda>tr e. False),
      io_fails = (\<lambda>tr e. False), expandvars = (\<lambda>s. s), normpath = (\<lambda>s. s),
      backup_paths = [], now = ''2025-12-06T09:00:00'', time_now = 0, answer = ''y''\<rparr>"

definition empty_world :: world where
  "empty_world = \<lparr>trace = [], files = (\<lambda>p. None), ledgers = (\<lambda>p. NoFile)\<rparr>"

text \<open>What \<^verbatim>\<open>sc query\<close> prints for a name that is not an installed service.\<close>

definition missing_service_output :: string where
  "missing_service_output =
     ''[SC] EnumQueryServicesStatus:OpenService FAILED 1060: The specified service does not exist as an installed service.''"

definition ghost_env :: env where
  "ghost_env = quiet_env\<lparr>sc_query := (\<lambda>tr n. Stdout missing_service_output)\<rparr>"

text \<open>A service that is running and stays so.\<close>

definition running_output :: string where
  "running_output = ''SERVICE_NAME: svc  TYPE : 10  WIN32_OWN_PROCESS  STATE : 4  RUNNING''"

definition running_env :: env where
  "running_env = quiet_env\<lparr>sc_query := (\<lambda>tr n. Stdout running_output)\<rparr>"

text \<open>A backup root \<^verbatim>\<open>E:/bk\<close> holding one backed-up file whose record names a service.\<close>

definition db_record :: meta_item where
  "db_record =
     \<lparr>source = ''C:/data/app.db'', source_expanded = ''C:/data/app.db'',
      backup_name = ''data_app.db'', item_type = Some ''file'', service = Some ''svc'',
      exclude = None\<rparr>"

definition db_world :: world where
  "db_world =
     \<lparr>trace = [],
      files = (\<lambda>p. if p = join ''E:/bk'' ''data_app.db'' then Some (File ''new'' 100)
                   else if p = ''C:/data/app.db'' then Some (File ''old'' 50)
                   else None),
      ledgers = (\<lambda>p. if p = join ''E:/bk'' METADATA_NAME
                     then Parsed \<lparr>backup_date = ''2025-12-06T09:00:00'', paths = [db_record]\<rparr>
                     else NoFile)\<rparr>"

text \<open>A backup root whose ledger does not parse.\<close>

definition corrupt_world :: world where
  "corrupt_world =
     \<lparr>trace = [], files = (\<lambda>p. None),
      ledgers = (\<lambda>p. if p = join ''E:/bk'' METADATA_NAME then Unparsable else NoFile)\<rparr>"

definition svc_item :: config_item where
  "svc_item = PathDict (Some ''C:/data/app.db'') (Some ''svc'') None None"

definition note_item :: config_item where
  "note_item = PathStr ''C:/docs/note.txt''"

definition two_files_world :: world where
  "two_files_world =
     \<lparr>trace = [],
      files = (\<lambda>p. if p = ''C:/data/app.db'' then Some (File ''db'' 7)
                   else if p = ''C:/docs/note.txt'' then Some (File ''hello'' 5)
                   else None),
      ledgers = (\<lambda>p. NoFile)\<rparr>"

definition ini_item :: config_item where
  "ini_item = PathDict (Some ''C:/cfg/desktop.ini'') None (Some [''desktop.ini'']) None"

definition ini_world :: world where
  "ini_world =
     \<lparr>trace = [],
      files = (\<lambda>p. if p = ''C:/cfg/desktop.ini'' then Some (File ''[x]'' 3) else None),
      ledgers = (\<lambda>p. NoFile)\<rparr>"


text \<open>The record of a plain file backed up under \<open>name\<close>.\<close>

definition file_record :: "string \<Rightarrow> string \<Rightarrow> meta_item" where
  "file_record p name =
     \<lparr>source = p, source_expanded = p, backup_name = name, item_type = Some ''file'',
      service = None, exclude = None\<rparr>"

text \<open>
  A destination whose ledger records \<^verbatim>\<open>C:/data/gone.txt\<close>, which no longer exists, while
  \<^verbatim>\<open>C:/docs/note.txt\<close> does.
\<close>

definition gone_record :: meta_item where
  "gone_record =
     \<lparr>source = ''C:/data/gone.txt'', source_expanded = ''C:/data/gone.txt'',
      backup_name = ''data_gone.txt'', item_type = Some ''file'', service = None,
      exclude = None\<rparr>"

definition gone_env :: env where
  "gone_env = quiet_env\<lparr>backup_paths := [PathStr ''C:/data/gone.txt'', note_item]\<rparr>"

definition gone_world :: world where
  "gone_world =
     \<lparr>trace = [],
      files = (\<lambda>p. if p = ''C:/docs/note.txt'' then Some (File ''hello'' 5) else None),
      ledgers = (\<lambda>p. if p = join ''E:/bk'' METADATA_NAME
                     then Parsed \<lparr>backup_date = ''2025-12-05T09:00:00'', paths = [gone_record]\<rparr>
                     else NoFile)\<rparr>"





text \<open>
  A destination whose ledger already gives \<^verbatim>\<open>C:/docs/note.txt\<close> the folder name
  \<^verbatim>\<open>notes_old\<close>, and the registration of that file alone.
\<close>

definition note_env :: env where
  "note_env = quiet_env\<lparr>backup_paths := [note_item]\<rparr>"

definition renamed_world :: world where
  "renamed_world =
     \<lparr>trace = [],
      files = (\<lambda>p. if p = ''C:/docs/note.txt'' then Some (File ''hello'' 5) else None),
      ledgers = (\<lambda>p. if p = join ''E:/bk'' METADATA_NAME
                     then Parsed \<lparr>backup_date = ''2025-12-05T09:00:00'',
                                  paths = [file_record ''C:/docs/note.txt'' ''notes_old'']\<rparr>
                     else NoFile)\<rparr>"


text \<open>
  A project directory holding a \<^verbatim>\<open>cache\<close> directory, a \<^verbatim>\<open>cache\<close> file one level down
  and a \<^verbatim>\<open>Thumbs.db\<close>, registered with \<^verbatim>\<open>exclude: ["cache"]\<close>.
\<close>

definition proj_tree :: node where
  "proj_tree =
     Dir 0 1
       [(''cache'', Dir 0 1 [(''a.tmp'', File ''x'' 1)]),
        (''sub'', Dir 0 1 [(''cache'', File ''y'' 1), (''keep.txt'', File ''z'' 1),
                          (''Thumbs.db'', File ''t'' 1)])]"

definition proj_world :: world where
  "proj_world =
     \<lparr>trace = [], files = (\<lambda>p. if p = ''C:/proj'' then Some proj_tree else None),
      ledgers = (\<lambda>p. NoFile)\<rparr>"

definition proj_info :: path_info where
  "proj_info =
     \<lparr>item_path = ''C:/proj'', item_service = None, item_exclude = [''cache''],
      item_destination = None\<rparr>"


section \<open>Properties\<close>

subsection \<open>Service controller\<close>

lemma get_service_status_eq:
  "get_service_status E n w = (parse_status (sc_query E (trace w) n), emit (Query n) w)"
  by (simp add: get_service_status_def parse_status_def split: sc_result.splits)

lemma parse_status_None: "parse_status r = None \<longleftrightarrow> r = Raises"
  by (simp add: parse_status_def split: sc_result.splits)

lemma parse_status_not_upper: "parse_status r \<noteq> Some ''RUNNING''"
  by (simp add: parse_status_def split: sc_result.splits)

text \<open>A status that never shows up makes the polling loop run to its end.\<close>

lemma wait_for_never:
  assumes "\<And>tr. parse_status (sc_query E tr n) \<noteq> Some wanted"
  shows "wait_for E wanted n k w =
           (False, w\<lparr>trace := trace w @ concat (replicate k [Sleep, Query n])\<rparr>)"
proof (induction k arbitrary: w)
  case 0
  show ?case by simp
next
  case (Suc k)
  show ?case
    using assms by (simp add: get_service_status_eq Suc.IH emit_def)
qed

lemma parse_missing: "parse_status (Stdout missing_service_output) = Some ''unknown''"
  unfolding parse_status_def missing_service_output_def by code_simp

lemma parse_running: "parse_status (Stdout running_output) = Some ''running''"
  unfolding parse_status_def running_output_def by code_simp

lemma lower_y: "lower ''y'' = ''y''"
  by code_simp

lemma join_bk_db: "join ''E:/bk'' ''data_app.db'' = ''E:/bk'' @ [backslash] @ ''data_app.db''"
  by code_simp

text \<open>
  C5. The claim: the status query returns not-found (\<^verbatim>\<open>None\<close>) for a service name the
  service manager does not know, and \<^verbatim>\<open>stop\<close> then fails at once, without a stop request
  and without polling. The code at that input: \<^verbatim>\<open>sc query\<close> prints error 1060, which holds
  neither \<^verbatim>\<open>RUNNING\<close> nor \<^verbatim>\<open>STOPPED\<close>, so the status is \<^verbatim>\<open>unknown\<close>; \<^verbatim>\<open>stop_service\<close>
  sends the stop request and polls thirty times before it returns false.
\<close>

theorem C5_missing_service_is_unknown_and_polled:
  "fst (get_service_status ghost_env ''ghost'' empty_world) = Some ''unknown''
   \<and> stop_service ghost_env ''ghost'' 30 empty_world =
       (False, empty_world\<lparr>trace := [Query ''ghost'', StopRequest ''ghost'']
                                      @ concat (replicate 30 [Sleep, Query ''ghost''])\<rparr>)"
proof -
  have q: "\<And>tr. sc_query ghost_env tr ''ghost'' = Stdout missing_service_output"
    by (simp add: ghost_env_def)
  have never: "\<And>tr. parse_status (sc_query ghost_env tr ''ghost'') \<noteq> Some ''stopped''"
    by (simp add: q parse_missing)
  have r: "\<not> sc_command_raises ghost_env tr e" for tr e
    by (simp add: ghost_env_def quiet_env_def)
  show ?thesis
    by (simp add: stop_service_def get_service_status_eq q parse_missing r
        wait_for_never [OF never] emit_def empty_world_def)
qed

subsection \<open>Restore orchestrator\<close>

text \<open>
  C2. The claim: during a restore, a service whose queried status is running is stopped
  before the records of its group are restored and restarted afterwards. The code
  compares the status with \<^verbatim>\<open>"RUNNING"\<close>, which \<^verbatim>\<open>get_service_status\<close> never returns: in
  the run below the service is reported running, yet the log of the restore holds the
  query only, no stop and no start request, and the file is replaced while the service
  runs.
\<close>

theorem C2_restore_leaves_running_service:
  "fst (get_service_status running_env ''svc'' db_world) = Some ''running''
   \<and> fst (restore running_env ''E:/bk'' None db_world) = Inr True
   \<and> trace (wld (snd (restore running_env ''E:/bk'' None db_world))) =
       [Prompt, Query ''svc'', Remove ''C:/data/app.db'',
        MakeDirs (dirname ''C:/data/app.db''),
        CopyFile (join ''E:/bk'' ''data_app.db'') ''C:/data/app.db'']
   \<and> files (wld (snd (restore running_env ''E:/bk'' None db_world))) ''C:/data/app.db'' =
       Some (File ''new'' 100)"
proof -
  have q: "\<And>tr n. sc_query running_env tr n = Stdout running_output"
    by (simp add: running_env_def)
  have e: "normpath running_env = (\<lambda>s. s)" "expandvars running_env = (\<lambda>s. s)"
    "answer running_env = ''y''" "\<And>tr ev. \<not> io_fails running_env tr ev"
    by (simp_all add: running_env_def quiet_env_def)
  have neq: "''C:/data/app.db'' \<noteq> join ''E:/bk'' ''data_app.db''"
    by (simp add: join_bk_db)
  show ?thesis
    using neq
    by (simp add: restore_def find_backup_root_def db_world_def truthy_def lower_y
        service_groups_def db_record_def restore_group_def restore_item_def
        get_service_status_eq q e parse_running expand_path_def remove_existing_def
        put_back_def copy2_def emit_def Let_def)
qed

text \<open>
  C4. The claim: a ledger that fails to parse is treated as absent both when a backup and
  when a restore loads it, and never aborts the operation. The backup does so (the map of
  earlier folder names is empty); the restore calls \<^verbatim>\<open>json.load\<close> outside any \<^verbatim>\<open>try\<close>, so
  the exception leaves \<^verbatim>\<open>restore\<close>.
\<close>

theorem C4_restore_raises_on_corrupt_ledger:
  "fst (restore quiet_env ''E:/bk'' None corrupt_world) = Inl JSONDecodeError
   \<and> existing_backup_map corrupt_world (join ''E:/bk'' METADATA_NAME) = Map.empty"
  by (simp add: restore_def find_backup_root_def quiet_env_def corrupt_world_def truthy_def
      existing_backup_map_def)

subsection \<open>Copy engine\<close>

lemma smart_copy2_cases:
  "smart_copy2 E tr src dst s d =
     (if unchanged s d then Inr (the d) else copy2 E tr src dst s d)"
  by (simp add: smart_copy2_def unchanged_def split: option.splits)

lemma copy2_file:
  "not_a_directory d \<Longrightarrow> \<not> io_fails E tr (CopyFile src dst) \<Longrightarrow>
   copy2 E tr src dst (File c m) d = Inr (File c m)"
  by (simp add: copy2_def not_a_directory_def split: option.splits node.splits)




subsection \<open>Backup orchestrator\<close>

lemma service_only_refl: "service_only w w"
  unfolding service_only_def by (rule exI [of _ "[]"]) simp

lemma service_only_trans:
  assumes "service_only w w'" and "service_only w' w''"
  shows "service_only w w''"
proof -
  from assms(1) obtain evs where 1: "w' = w\<lparr>trace := trace w @ evs\<rparr>" "list_all is_service_event evs"
    unfolding service_only_def by blast
  from assms(2) obtain evs' where 2: "w'' = w'\<lparr>trace := trace w' @ evs'\<rparr>" "list_all is_service_event evs'"
    unfolding service_only_def by blast
  have "w'' = w\<lparr>trace := trace w @ (evs @ evs')\<rparr>" using 1 2 by simp
  moreover have "list_all is_service_event (evs @ evs')" using 1 2 by simp
  ultimately show ?thesis unfolding service_only_def by blast
qed

lemma service_only_emit:
  "is_service_event e \<Longrightarrow> service_only w (emit e w)"
  unfolding service_only_def emit_def by (rule exI [of _ "[e]"]) simp

lemma service_only_files: "service_only w w' \<Longrightarrow> files w' = files w"
  unfolding service_only_def by auto

lemma service_only_ledgers: "service_only w w' \<Longrightarrow> ledgers w' = ledgers w"
  unfolding service_only_def by auto

lemma get_service_status_frame: "service_only w (snd (get_service_status E n w))"
  by (simp add: get_service_status_eq service_only_emit)

lemma wait_for_frame: "service_only w (snd (wait_for E wanted n k w))"
proof (induction k arbitrary: w)
  case 0
  show ?case by (simp add: service_only_refl)
next
  case (Suc k)
  have 1: "service_only w (emit (Query n) (emit Sleep w))"
    by (rule service_only_trans [OF service_only_emit service_only_emit]) simp_all
  show ?case
    using 1 Suc.IH [of "emit (Query n) (emit Sleep w)"]
    by (auto simp add: get_service_status_eq intro: service_only_trans)
qed

lemma stop_service_frame: "service_only w (snd (stop_service E n t w))"
proof -
  have 1: "service_only w (emit (Query n) w)"
    by (simp add: service_only_emit)
  have 2: "service_only w (emit (StopRequest n) (emit (Query n) w))"
    by (rule service_only_trans [OF service_only_emit service_only_emit]) simp_all
  have 3: "service_only w (snd (wait_for E ''stopped'' n (nat t) (emit (StopRequest n) (emit (Query n) w))))"
    using 2 wait_for_frame by (blast intro: service_only_trans)
  show ?thesis
    using 1 3 by (simp add: stop_service_def get_service_status_eq)
qed

lemma start_service_frame: "service_only w (snd (start_service E n t w))"
proof -
  have 1: "service_only w (emit (Query n) w)"
    by (simp add: service_only_emit)
  have 2: "service_only w (emit (StartRequest n) (emit (Query n) w))"
    by (rule service_only_trans [OF service_only_emit service_only_emit]) simp_all
  have 3: "service_only w (snd (wait_for E ''running'' n (nat t) (emit (StartRequest n) (emit (Query n) w))))"
    using 2 wait_for_frame by (blast intro: service_only_trans)
  show ?thesis
    using 1 3 by (simp add: start_service_def get_service_status_eq)
qed

lemma pause_service_frame:
  "service_only (wld st) (wld (snd (pause_service E s st)))"
proof -
  let ?n = "the s"
  let ?w1 = "snd (get_service_status E ?n (wld st))"
  have 1: "service_only (wld st) ?w1"
    by (rule get_service_status_frame)
  have 2: "service_only (wld st) (snd (stop_service E ?n 30 ?w1))"
    using 1 stop_service_frame by (blast intro: service_only_trans)
  show ?thesis
    using 1 2
    by (simp add: pause_service_def service_only_refl split_beta Let_def)
qed

lemma pause_service_counts:
  "success_count (snd (pause_service E s st)) = success_count st"
  "meta_paths (snd (pause_service E s st)) = meta_paths st"
  "fst (pause_service E s st) \<Longrightarrow> fail_count (snd (pause_service E s st)) = fail_count st"
  "\<not> fst (pause_service E s st) \<Longrightarrow> fail_count (snd (pause_service E s st)) = fail_count st + 1"
  by (simp_all add: pause_service_def split_beta Let_def split: if_splits)

lemma copy_item_counts:
  "success_count (copy_item E info p fn dp st) + fail_count (copy_item E info p fn dp st)
   = success_count st + fail_count st + 1"
  by (simp add: copy_item_def Let_def split_beta split: option.splits node.splits sum.splits)

lemma copy_item_meta_length:
  "length (meta_paths (copy_item E info p fn dp st)) + success_count st
   = length (meta_paths st) + success_count (copy_item E info p fn dp st)"
  by (simp add: copy_item_def Let_def split_beta split: option.splits node.splits sum.splits)

lemma backup_item_counts:
  "success_count (backup_item E bf ex item st) + fail_count (backup_item E bf ex item st)
   = success_count st + fail_count st + 1"
  using pause_service_counts [of E "item_service (normalize_path_item item)" st]
  by (simp add: backup_item_def Let_def split_beta copy_item_counts)

lemma backup_loop_counts:
  "success_count (fold (backup_item E bf ex) items st)
     + fail_count (fold (backup_item E bf ex) items st)
   = success_count st + fail_count st + length items"
  by (induction items arbitrary: st) (simp_all add: backup_item_counts)

lemma pause_service_no_service:
  "\<not> truthy s \<Longrightarrow> pause_service E s st = (True, st)"
  by (simp add: pause_service_def)

lemma pause_service_stop_fails:
  assumes "s = Some n" "n \<noteq> []"
    and "fst (get_service_status E n (wld st)) = Some ''running''"
    and "\<not> fst (stop_service E n 30 (snd (get_service_status E n (wld st))))"
  shows "pause_service E s st =
           (False, st\<lparr>wld := snd (stop_service E n 30 (snd (get_service_status E n (wld st)))),
                      fail_count := fail_count st + 1\<rparr>)"
  using assms by (simp add: pause_service_def truthy_def split_beta Let_def)

text \<open>
  C8. An entry whose service is observed running and does not stop is counted as a
  failure and nothing else: no record, no service noted for restart, the file system as
  before and only service events in the log, so no copy was attempted. The loop goes on
  with the entries after it, and every entry ends counted once.
\<close>

theorem C8_stop_failure_fails_entry_only:
  assumes "item_service (normalize_path_item item) = Some n" and "n \<noteq> []"
    and "fst (get_service_status E n (wld st)) = Some ''running''"
    and "\<not> fst (stop_service E n 30 (snd (get_service_status E n (wld st))))"
  shows "fail_count (backup_item E bf ex item st) = fail_count st + 1
       \<and> success_count (backup_item E bf ex item st) = success_count st
       \<and> meta_paths (backup_item E bf ex item st) = meta_paths st
       \<and> services_to_restart (backup_item E bf ex item st) = services_to_restart st
       \<and> files (wld (backup_item E bf ex item st)) = files (wld st)
       \<and> (\<exists>evs. trace (wld (backup_item E bf ex item st)) = trace (wld st) @ evs
                \<and> list_all is_service_event evs)
       \<and> fold (backup_item E bf ex) (item # rest) st
           = fold (backup_item E bf ex) rest (backup_item E bf ex item st)
       \<and> success_count (fold (backup_item E bf ex) (item # rest) st)
           + fail_count (fold (backup_item E bf ex) (item # rest) st)
           = success_count st + fail_count st + 1 + length rest"
proof -
  let ?w2 = "snd (stop_service E n 30 (snd (get_service_status E n (wld st))))"
  have step: "backup_item E bf ex item st = st\<lparr>wld := ?w2, fail_count := fail_count st + 1\<rparr>"
    using pause_service_stop_fails [OF assms, of] assms(1)
    by (simp add: backup_item_def Let_def)
  have frame: "service_only (wld st) ?w2"
    by (blast intro: service_only_trans get_service_status_frame stop_service_frame)
  then obtain evs where evs: "?w2 = (wld st)\<lparr>trace := trace (wld st) @ evs\<rparr>"
      "list_all is_service_event evs"
    unfolding service_only_def by blast
  have tr: "\<exists>evs. trace (wld (backup_item E bf ex item st)) = trace (wld st) @ evs
                \<and> list_all is_service_event evs"
    using evs by (intro exI [of _ evs]) (simp add: step)
  have fl: "files (wld (backup_item E bf ex item st)) = files (wld st)"
    using frame by (simp add: step service_only_files)
  have cnt: "success_count (fold (backup_item E bf ex) (item # rest) st)
           + fail_count (fold (backup_item E bf ex) (item # rest) st)
           = success_count st + fail_count st + 1 + length rest"
    using backup_loop_counts [of E bf ex "item # rest" st] by simp
  show ?thesis
    using tr fl cnt by (simp add: step)
qed

lemma copy_item_file:
  assumes "files (wld st) p = Some (File c m)"
  shows "wld (copy_item E info p fn dp st) = wld (copy_item E (info\<lparr>item_exclude := xs\<rparr>) p fn dp st)"
    and "success_count (copy_item E info p fn dp st)
         = success_count (copy_item E (info\<lparr>item_exclude := xs\<rparr>) p fn dp st)"
    and "fail_count (copy_item E info p fn dp st)
         = fail_count (copy_item E (info\<lparr>item_exclude := xs\<rparr>) p fn dp st)"
    and "map backup_name (meta_paths (copy_item E info p fn dp st))
         = map backup_name (meta_paths (copy_item E (info\<lparr>item_exclude := xs\<rparr>) p fn dp st))"
  using assms by (simp_all add: copy_item_def Let_def split: sum.splits)

lemma copy_item_file_done:
  assumes "files (wld st) p = Some (File c m)"
    and "\<not> io_fails E (trace (wld st)) (CopyFile p dp)"
    and "not_a_directory (files (wld st) dp)"
  shows "success_count (copy_item E info p fn dp st) = success_count st + 1
       \<and> unchanged (File c m) (files (wld (copy_item E info p fn dp st)) dp)"
proof (cases "unchanged (File c m) (files (wld st) dp)")
  case True
  then obtain dn where "files (wld st) dp = Some dn"
    by (auto simp add: unchanged_def split: option.splits)
  with True assms(1) show ?thesis
    by (simp add: copy_item_def Let_def smart_copy2_cases emit_def)
next
  case False
  with assms show ?thesis
    by (simp add: copy_item_def Let_def smart_copy2_cases copy2_file emit_def unchanged_def)
qed

text \<open>
  C10. When the source of an entry is a single file, its \<^verbatim>\<open>exclude\<close> list has no
  effect on the run: the world and the counts are those of the same entry without the
  list, and the recorded folder names agree. With no service named, no failing copy and
  a destination that is not a directory, the entry succeeds and the destination then
  passes the test against the source, whatever the name of the file.
\<close>

theorem C10_file_source_ignores_excludes:
  assumes "files (wld st) (expand_path E p) = Some (File c m)"
  shows "wld (backup_item E bf ex (PathDict (Some p) s (Some xs) d) st)
           = wld (backup_item E bf ex (PathDict (Some p) s None d) st)
       \<and> success_count (backup_item E bf ex (PathDict (Some p) s (Some xs) d) st)
           = success_count (backup_item E bf ex (PathDict (Some p) s None d) st)
       \<and> fail_count (backup_item E bf ex (PathDict (Some p) s (Some xs) d) st)
           = fail_count (backup_item E bf ex (PathDict (Some p) s None d) st)
       \<and> map backup_name (meta_paths (backup_item E bf ex (PathDict (Some p) s (Some xs) d) st))
           = map backup_name (meta_paths (backup_item E bf ex (PathDict (Some p) s None d) st))
       \<and> (\<not> truthy s
            \<and> \<not> io_fails E (trace (wld st))
                  (CopyFile (expand_path E p)
                     (join bf (resolve_backup_name d ex (expand_path E p))))
            \<and> not_a_directory
                  (files (wld st) (join bf (resolve_backup_name d ex (expand_path E p))))
          \<longrightarrow> success_count (backup_item E bf ex (PathDict (Some p) s (Some xs) d) st)
                = success_count st + 1
              \<and> unchanged (File c m)
                  (files (wld (backup_item E bf ex (PathDict (Some p) s (Some xs) d) st))
                     (join bf (resolve_backup_name d ex (expand_path E p)))))"
proof -
  let ?st1 = "snd (pause_service E s st)"
  let ?info = "\<lparr>item_path = p, item_service = s, item_exclude = [], item_destination = d\<rparr>"
  have src: "files (wld ?st1) (expand_path E p) = Some (File c m)"
    using pause_service_frame [of st E s] assms by (simp add: service_only_files)
  note eqs = copy_item_file [OF src, of E ?info _ _ xs]
  have indep: "wld (backup_item E bf ex (PathDict (Some p) s (Some xs) d) st)
           = wld (backup_item E bf ex (PathDict (Some p) s None d) st)
       \<and> success_count (backup_item E bf ex (PathDict (Some p) s (Some xs) d) st)
           = success_count (backup_item E bf ex (PathDict (Some p) s None d) st)
       \<and> fail_count (backup_item E bf ex (PathDict (Some p) s (Some xs) d) st)
           = fail_count (backup_item E bf ex (PathDict (Some p) s None d) st)
       \<and> map backup_name (meta_paths (backup_item E bf ex (PathDict (Some p) s (Some xs) d) st))
           = map backup_name (meta_paths (backup_item E bf ex (PathDict (Some p) s None d) st))"
    using src eqs by (simp add: backup_item_def Let_def split_beta)
  have backed: "success_count (backup_item E bf ex (PathDict (Some p) s (Some xs) d) st)
                = success_count st + 1
              \<and> unchanged (File c m)
                  (files (wld (backup_item E bf ex (PathDict (Some p) s (Some xs) d) st))
                     (join bf (resolve_backup_name d ex (expand_path E p))))"
    if "\<not> truthy s"
       "\<not> io_fails E (trace (wld st))
                  (CopyFile (expand_path E p)
                     (join bf (resolve_backup_name d ex (expand_path E p))))"
       "not_a_directory
                  (files (wld st) (join bf (resolve_backup_name d ex (expand_path E p))))"
    using copy_item_file_done [OF assms that(2) that(3)] that(1) assms
    by (simp add: backup_item_def Let_def pause_service_no_service)
  show ?thesis
    using indep backed by blast
qed


lemma backup_item_plain_file:
  assumes "files (wld st) (expand_path E p) = Some (File c m)"
    and "\<not> io_fails E (trace (wld st))
           (CopyFile (expand_path E p) (join bf (resolve_backup_name None ex (expand_path E p))))"
    and "not_a_directory (files (wld st) (join bf (resolve_backup_name None ex (expand_path E p))))"
  shows "success_count (backup_item E bf ex (PathStr p) st) = success_count st + 1"
    and "fail_count (backup_item E bf ex (PathStr p) st) = fail_count st"
proof -
  have s: "success_count (backup_item E bf ex (PathStr p) st) = success_count st + 1"
    using copy_item_file_done [OF assms] assms(1)
    by (simp add: backup_item_def Let_def pause_service_no_service truthy_def)
  show "success_count (backup_item E bf ex (PathStr p) st) = success_count st + 1"
    by (rule s)
  show "fail_count (backup_item E bf ex (PathStr p) st) = fail_count st"
    using s backup_item_counts [of E bf ex "PathStr p" st] by simp
qed

theorem C8_witness:
  "fst (get_service_status running_env ''svc'' two_files_world) = Some ''running''
   \<and> \<not> fst (stop_service running_env ''svc'' 30
             (snd (get_service_status running_env ''svc'' two_files_world)))
   \<and> fail_count (backup_item running_env ''E:/bk'' Map.empty svc_item
                   (fresh_run two_files_world)) = 1
   \<and> meta_paths (backup_item running_env ''E:/bk'' Map.empty svc_item
                   (fresh_run two_files_world)) = []
   \<and> files (wld (backup_item running_env ''E:/bk'' Map.empty svc_item
                    (fresh_run two_files_world))) (join ''E:/bk'' ''data_app.db'') = None
   \<and> success_count (fold (backup_item running_env ''E:/bk'' Map.empty)
                      [svc_item, note_item] (fresh_run two_files_world)) = 1
   \<and> fail_count (fold (backup_item running_env ''E:/bk'' Map.empty)
                      [svc_item, note_item] (fresh_run two_files_world)) = 1"
proof -
  let ?st0 = "fresh_run two_files_world"
  have q: "\<And>tr n. sc_query running_env tr n = Stdout running_output"
    by (simp add: running_env_def)
  have e: "normpath running_env = (\<lambda>s. s)" "expandvars running_env = (\<lambda>s. s)"
    "\<And>tr ev. \<not> io_fails running_env tr ev" "\<And>tr ev. \<not> sc_command_raises running_env tr ev"
    by (simp_all add: running_env_def quiet_env_def)
  have never: "\<And>tr. parse_status (sc_query running_env tr ''svc'') \<noteq> Some ''stopped''"
    by (simp add: q parse_running)
  have h1: "item_service (normalize_path_item svc_item) = Some ''svc''"
    by (simp add: svc_item_def)
  have h2: "''svc'' \<noteq> []"
    by simp
  have h3: "fst (get_service_status running_env ''svc'' (wld ?st0)) = Some ''running''"
    by (simp add: get_service_status_eq q parse_running)
  have h4: "\<not> fst (stop_service running_env ''svc'' 30
                    (snd (get_service_status running_env ''svc'' (wld ?st0))))"
    by (simp add: stop_service_def get_service_status_eq q parse_running e
        wait_for_never [OF never])
  note t = C8_stop_failure_fails_entry_only [OF h1 h2 h3 h4, of "''E:/bk''" Map.empty "[note_item]"]
  let ?st1 = "backup_item running_env ''E:/bk'' Map.empty svc_item ?st0"
  have f1: "files (wld ?st1) = files two_files_world"
    using t by (simp add: fresh_run_def)
  have s1: "success_count ?st1 = 0" "fail_count ?st1 = 1" "meta_paths ?st1 = []"
    using t by (simp_all add: fresh_run_def)
  have src: "files (wld ?st1) (expand_path running_env ''C:/docs/note.txt'') = Some (File ''hello'' 5)"
    unfolding f1 by (simp add: expand_path_def e two_files_world_def)
  have nd: "not_a_directory (files (wld ?st1) x)" for x
    unfolding f1 by (simp add: two_files_world_def not_a_directory_def)
  have sib: "success_count (backup_item running_env ''E:/bk'' Map.empty note_item ?st1) = 1"
      "fail_count (backup_item running_env ''E:/bk'' Map.empty note_item ?st1) = 1"
    using backup_item_plain_file [OF src e(3) nd] s1 by (simp_all add: note_item_def)
  have abs: "files (wld ?st1) (join ''E:/bk'' ''data_app.db'') = None"
    unfolding f1 by (simp add: two_files_world_def join_bk_db)
  show ?thesis
    using h3 h4 s1 sib abs by (simp add: fresh_run_def)
qed

lemma ini_name: "basename ''C:/cfg/desktop.ini'' \<in> all_excludes (Some [''desktop.ini''])"
  by code_simp

theorem C10_witness:
  "basename ''C:/cfg/desktop.ini'' \<in> all_excludes (Some [''desktop.ini''])
   \<and> success_count (backup_item quiet_env ''E:/bk'' Map.empty ini_item (fresh_run ini_world)) = 1
   \<and> unchanged (File ''[x]'' 3)
       (files (wld (backup_item quiet_env ''E:/bk'' Map.empty ini_item (fresh_run ini_world)))
          (join ''E:/bk'' (resolve_backup_name None Map.empty ''C:/cfg/desktop.ini'')))"
proof -
  have e: "normpath quiet_env = (\<lambda>s. s)" "expandvars quiet_env = (\<lambda>s. s)"
    "\<And>tr ev. \<not> io_fails quiet_env tr ev"
    by (simp_all add: quiet_env_def)
  have src: "files (wld (fresh_run ini_world)) (expand_path quiet_env ''C:/cfg/desktop.ini'')
             = Some (File ''[x]'' 3)"
    by (simp add: fresh_run_def ini_world_def expand_path_def e)
  have nd: "not_a_directory (files (wld (fresh_run ini_world)) x)" for x
    by (simp add: fresh_run_def ini_world_def not_a_directory_def)
  have ex: "expand_path quiet_env ''C:/cfg/desktop.ini'' = ''C:/cfg/desktop.ini''"
    by (simp add: expand_path_def e)
  note t = C10_file_source_ignores_excludes
      [OF src, of "''E:/bk''" Map.empty None "[''desktop.ini'']" None, unfolded ex]
  have pre: "\<not> truthy None"
    by (simp add: truthy_def)
  have c: "success_count (backup_item quiet_env ''E:/bk'' Map.empty ini_item (fresh_run ini_world))
             = success_count (fresh_run ini_world) + 1
           \<and> unchanged (File ''[x]'' 3)
               (files (wld (backup_item quiet_env ''E:/bk'' Map.empty ini_item (fresh_run ini_world)))
                  (join ''E:/bk'' (resolve_backup_name None Map.empty ''C:/cfg/desktop.ini'')))"
    unfolding ini_item_def using t pre nd e(3) by blast
  have z: "success_count (fresh_run ini_world) = 0"
    by (simp add: fresh_run_def)
  show ?thesis
    using c ini_name unfolding z by simp
qed

subsection \<open>The ledger of a run\<close>

lemma copy_item_meta:
  "meta_paths (copy_item E info p fn dp st) = meta_paths st
   \<or> (\<exists>r. meta_paths (copy_item E info p fn dp st) = meta_paths st @ [r]
          \<and> source r = item_path info \<and> source_expanded r = p \<and> backup_name r = fn)"
  by (simp add: copy_item_def Let_def split_beta split: option.splits node.splits sum.splits)

lemma backup_item_meta:
  "meta_paths (backup_item E bf ex item st) = meta_paths st
   \<or> (\<exists>r. meta_paths (backup_item E bf ex item st) = meta_paths st @ [r]
          \<and> recorded_by E ex item r)"
proof -
  let ?info = "normalize_path_item item"
  let ?st1 = "snd (pause_service E (item_service ?info) st)"
  have m: "meta_paths ?st1 = meta_paths st"
    by (rule pause_service_counts)
  show ?thesis
    using m copy_item_meta [of E ?info "expand_path E (item_path ?info)"
        "resolve_backup_name (item_destination ?info) ex (expand_path E (item_path ?info))"
        "join bf (resolve_backup_name (item_destination ?info) ex (expand_path E (item_path ?info)))"
        ?st1]
    by (auto simp add: backup_item_def Let_def split_beta recorded_by_def)
qed

lemma backup_loop_records:
  "r \<in> set (meta_paths (fold (backup_item E bf ex) items st)) \<Longrightarrow>
   r \<in> set (meta_paths st) \<or> (\<exists>item \<in> set items. recorded_by E ex item r)"
proof (induction items arbitrary: st)
  case Nil
  then show ?case by simp
next
  case (Cons item items)
  from Cons.prems have "r \<in> set (meta_paths (fold (backup_item E bf ex) items (backup_item E bf ex item st)))"
    by simp
  then have "r \<in> set (meta_paths (backup_item E bf ex item st))
             \<or> (\<exists>i \<in> set items. recorded_by E ex i r)"
    by (rule Cons.IH)
  then show ?case
    using backup_item_meta [of E bf ex item st] by auto
qed

lemma backup_item_meta_length:
  "length (meta_paths (backup_item E bf ex item st)) + success_count st
   = length (meta_paths st) + success_count (backup_item E bf ex item st)"
  using pause_service_counts(1,2) [of E "item_service (normalize_path_item item)" st]
    copy_item_meta_length [of E "normalize_path_item item" _ _ _
      "snd (pause_service E (item_service (normalize_path_item item)) st)"]
  by (simp add: backup_item_def Let_def split_beta)

lemma backup_loop_meta_length:
  "length (meta_paths (fold (backup_item E bf ex) items st)) + success_count st
   = length (meta_paths st) + success_count (fold (backup_item E bf ex) items st)"
proof (induction items arbitrary: st)
  case Nil
  show ?case by simp
next
  case (Cons item items)
  show ?case
    using Cons.IH [of "backup_item E bf ex item st"] backup_item_meta_length [of E bf ex item st]
    by simp
qed

lemma existing_backup_map_ledgers:
  "ledgers w' = ledgers w \<Longrightarrow> existing_backup_map w' mf = existing_backup_map w mf"
  by (simp add: existing_backup_map_def)

lemma existing_after_makedirs:
  "existing_backup_map (emit e (case files w bf of None \<Rightarrow> w\<lparr>files := f\<rparr> | Some d \<Rightarrow> w)) mf
   = existing_backup_map w mf"
  by (simp add: existing_backup_map_def emit_def split: option.splits)

lemma backup_unfold:
  "backup E destination w =
     (if backup_refused E destination w then (Inr False, fresh_run w)
      else if io_fails E
                (trace (restart_services E (services_to_restart (backup_loop E destination w))
                          (wld (backup_loop E destination w))))
                (WriteLedger (join (normpath E destination) METADATA_NAME))
      then (Inl OSError,
            (backup_loop E destination w)
              \<lparr>wld := restart_services E (services_to_restart (backup_loop E destination w))
                         (wld (backup_loop E destination w))\<rparr>)
      else (Inr True,
            (backup_loop E destination w)
              \<lparr>wld := emit (WriteLedger (join (normpath E destination) METADATA_NAME))
                   ((restart_services E (services_to_restart (backup_loop E destination w))
                       (wld (backup_loop E destination w)))
                    \<lparr>ledgers :=
                       (ledgers (restart_services E
                                  (services_to_restart (backup_loop E destination w))
                                  (wld (backup_loop E destination w))))
                       (join (normpath E destination) METADATA_NAME :=
                          Parsed \<lparr>backup_date = now E,
                                  paths = meta_paths (backup_loop E destination w)\<rparr>)\<rparr>)\<rparr>))"
  unfolding backup_def backup_loop_def backup_root_made_def backup_refused_def Let_def
  by (simp add: existing_after_makedirs fresh_run_def)

lemma backup_meta_paths:
  "meta_paths (snd (backup E destination w)) =
     (if backup_refused E destination w then [] else meta_paths (backup_loop E destination w))"
  by (simp add: backup_unfold fresh_run_def)

lemma backup_success_count:
  "success_count (snd (backup E destination w)) =
     (if backup_refused E destination w then 0 else success_count (backup_loop E destination w))"
  by (simp add: backup_unfold fresh_run_def)

lemma backup_records:
  assumes "r \<in> set (meta_paths (snd (backup E destination w)))"
  shows "\<exists>item \<in> set (backup_paths E).
           recorded_by E (existing_backup_map w (join (normpath E destination) METADATA_NAME))
             item r"
proof -
  from assms have "r \<in> set (meta_paths (backup_loop E destination w))"
    by (simp add: backup_meta_paths split: if_splits)
  then show ?thesis
    unfolding backup_loop_def
    by (auto dest!: backup_loop_records simp add: fresh_run_def)
qed

lemma backup_meta_length:
  "length (meta_paths (snd (backup E destination w))) = success_count (snd (backup E destination w))"
  using backup_loop_meta_length
    [of E "normpath E destination"
      "existing_backup_map w (join (normpath E destination) METADATA_NAME)" "backup_paths E"
      "(fresh_run w)\<lparr>wld := backup_root_made E (normpath E destination) w\<rparr>"]
  by (simp add: backup_meta_paths backup_success_count backup_loop_def fresh_run_def)

lemma restart_services_frame: "service_only w (restart_services E names w)"
  unfolding restart_services_def
proof (induction names arbitrary: w)
  case Nil
  show ?case by (simp add: service_only_refl)
next
  case (Cons n names)
  show ?case
    using start_service_frame [of w E n 30] Cons.IH [of "snd (start_service E n 30 w)"]
    by (auto intro: service_only_trans)
qed

lemma backup_saved:
  assumes "fst (backup E destination w) = Inr True"
  shows "ledgers (wld (snd (backup E destination w))) (join (normpath E destination) METADATA_NAME)
         = Parsed \<lparr>backup_date = now E, paths = meta_paths (snd (backup E destination w))\<rparr>"
  using assms by (simp add: backup_unfold emit_def split: if_splits)

lemma backup_returns_true:
  assumes "\<not> backup_refused E destination w"
    and "\<And>tr. \<not> io_fails E tr (WriteLedger (join (normpath E destination) METADATA_NAME))"
  shows "fst (backup E destination w) = Inr True"
  using assms by (simp add: backup_unfold)

lemma resolve_fixed:
  "truthy d \<Longrightarrow> resolve_backup_name d ex p = the d"
  by (simp add: resolve_backup_name_def)


lemma fold_existing:
  "fold remember items m0 p =
     (if \<exists>r \<in> set items. source_expanded r = p
      then Some (backup_name (last (filter (\<lambda>r. source_expanded r = p) items)))
      else m0 p)"
proof (induction items arbitrary: m0)
  case Nil
  show ?case by simp
next
  case (Cons x xs)
  have "fold remember (x # xs) m0 p = fold remember xs (remember x m0) p"
    by simp
  also have "\<dots> = (if \<exists>r \<in> set xs. source_expanded r = p
      then Some (backup_name (last (filter (\<lambda>r. source_expanded r = p) xs)))
      else remember x m0 p)"
    by (rule Cons.IH)
  also have "\<dots> = (if \<exists>r \<in> set (x # xs). source_expanded r = p
      then Some (backup_name (last (filter (\<lambda>r. source_expanded r = p) (x # xs))))
      else m0 p)"
    by (simp add: remember_def filter_empty_conv)
  finally show ?case .
qed

lemma existing_backup_map_Parsed:
  assumes "ledgers w mf = Parsed md"
    and "r0 \<in> set (paths md)" and "source_expanded r0 = p"
    and "\<And>r. r \<in> set (paths md) \<Longrightarrow> source_expanded r = p \<Longrightarrow> backup_name r = nm"
  shows "existing_backup_map w mf p = Some nm"
proof -
  let ?xs = "filter (\<lambda>r. source_expanded r = p) (paths md)"
  have ne: "?xs \<noteq> []"
    using assms(2,3) by (auto simp add: filter_empty_conv)
  then have "last ?xs \<in> set ?xs"
    by (rule last_in_set)
  then have "backup_name (last ?xs) = nm"
    using assms(4) by simp
  then show ?thesis
    using assms(1,2,3) by (auto simp add: existing_backup_map_def fold_existing)
qed

lemma existing_backup_map_absent:
  "ledgers w mf = NoFile \<or> ledgers w mf = Unparsable \<Longrightarrow> existing_backup_map w mf = Map.empty"
  by (auto simp add: existing_backup_map_def)

lemma synth_note:
  "basename (dirname ''C:/docs/note.txt'') @ CHR ''_'' # basename ''C:/docs/note.txt''
   = ''docs_note.txt''"
  by code_simp

lemma join_bk_note: "join ''E:/bk'' ''docs_note.txt'' = ''E:/bk'' @ [backslash] @ ''docs_note.txt''"
  by code_simp

lemma quiet_fields:
  "normpath quiet_env = (\<lambda>s. s)" "expandvars quiet_env = (\<lambda>s. s)"
  "io_fails quiet_env = (\<lambda>tr ev. False)" "sc_command_raises quiet_env = (\<lambda>tr ev. False)"
  "now quiet_env = ''2025-12-06T09:00:00''"
  by (simp_all add: quiet_env_def)

text \<open>
  C1. The claim: the ledger saved at the end of a run also holds every record of the
  ledger loaded before whose entry failed or was skipped this run. The code starts the
  run with an empty list of records and reads the old ledger for folder names only: in
  the run below the old ledger records \<^verbatim>\<open>C:/data/gone.txt\<close>, the entry fails because the
  file is gone, and the saved ledger holds the record of the other entry alone.
\<close>

theorem C1_counterexample:
  "gone_record \<in> set (ledger_paths (ledgers gone_world (join ''E:/bk'' METADATA_NAME)))
   \<and> fst (backup gone_env ''E:/bk'' gone_world) = Inr True
   \<and> fail_count (snd (backup gone_env ''E:/bk'' gone_world)) = 1
   \<and> ledger_paths (ledgers (wld (snd (backup gone_env ''E:/bk'' gone_world)))
                     (join ''E:/bk'' METADATA_NAME)) = [file_record ''C:/docs/note.txt'' ''docs_note.txt'']
   \<and> gone_record \<notin> set (ledger_paths (ledgers (wld (snd (backup gone_env ''E:/bk'' gone_world)))
                     (join ''E:/bk'' METADATA_NAME)))"
proof -
  have e: "normpath gone_env = (\<lambda>s. s)" "expandvars gone_env = (\<lambda>s. s)"
    "io_fails gone_env = (\<lambda>tr ev. False)" "now gone_env = ''2025-12-06T09:00:00''"
    "backup_paths gone_env = [PathStr ''C:/data/gone.txt'', note_item]"
    by (simp_all add: gone_env_def quiet_env_def)
  have loop: "backup_loop gone_env ''E:/bk'' gone_world =
      \<lparr>wld = \<lparr>trace = [MakeDirs ''E:/bk'',
                        CopyFile ''C:/docs/note.txt'' (join ''E:/bk'' ''docs_note.txt'')],
               files = (files gone_world)
                         (''E:/bk'' \<mapsto> Dir 0 (time_now gone_env) [],
                          join ''E:/bk'' ''docs_note.txt'' \<mapsto> File ''hello'' 5),
               ledgers = ledgers gone_world\<rparr>,
       success_count = 1, fail_count = 1,
       meta_paths = [file_record ''C:/docs/note.txt'' ''docs_note.txt''], services_to_restart = []\<rparr>"
    by (simp add: backup_loop_def e note_item_def backup_item_def pause_service_def truthy_def
        expand_path_def fresh_run_def backup_root_made_def emit_def gone_world_def
        existing_backup_map_def remember_def gone_record_def resolve_backup_name_def
        synth_note join_bk_note copy_item_def smart_copy2_def copy2_def Let_def
        file_record_def)
  have nr: "\<not> backup_refused gone_env ''E:/bk'' gone_world"
    by (simp add: backup_refused_def e gone_world_def)
  have neq: "gone_record \<noteq> file_record ''C:/docs/note.txt'' ''docs_note.txt''"
    by (simp add: gone_record_def file_record_def)
  have lg: "ledgers gone_world (join ''E:/bk'' METADATA_NAME)
            = Parsed \<lparr>backup_date = ''2025-12-05T09:00:00'', paths = [gone_record]\<rparr>"
    by (simp add: gone_world_def)
  show ?thesis
    using neq
    by (simp add: backup_unfold nr loop e restart_services_def emit_def ledger_paths_def lg)
qed

text \<open>
  C1, amended. The ledger saved by a run that returns true holds the records this run
  appended and nothing else: as many as entries succeeded, each naming a registered
  entry. A run that reaches the loop returns true whenever writing the ledger does not
  fail, whatever happened to the entries.
\<close>

theorem C1_saved_ledger_holds_this_run_only:
  "(fst (backup E destination w) = Inr True \<longrightarrow>
      ledgers (wld (snd (backup E destination w))) (join (normpath E destination) METADATA_NAME)
        = Parsed \<lparr>backup_date = now E, paths = meta_paths (snd (backup E destination w))\<rparr>)
   \<and> length (meta_paths (snd (backup E destination w)))
       = success_count (snd (backup E destination w))
   \<and> (\<forall>r \<in> set (meta_paths (snd (backup E destination w))).
         \<exists>item \<in> set (backup_paths E).
           source r = item_path (normalize_path_item item)
           \<and> source_expanded r = expand_path E (source r))
   \<and> (\<not> backup_refused E destination w
        \<and> (\<forall>tr. \<not> io_fails E tr (WriteLedger (join (normpath E destination) METADATA_NAME)))
       \<longrightarrow> fst (backup E destination w) = Inr True)"
proof (intro conjI impI ballI)
  assume "fst (backup E destination w) = Inr True"
  then show "ledgers (wld (snd (backup E destination w)))
               (join (normpath E destination) METADATA_NAME)
             = Parsed \<lparr>backup_date = now E, paths = meta_paths (snd (backup E destination w))\<rparr>"
    by (rule backup_saved)
next
  show "length (meta_paths (snd (backup E destination w)))
        = success_count (snd (backup E destination w))"
    by (rule backup_meta_length)
next
  fix r
  assume "r \<in> set (meta_paths (snd (backup E destination w)))"
  then obtain item where "item \<in> set (backup_paths E)"
    and "recorded_by E (existing_backup_map w (join (normpath E destination) METADATA_NAME))
           item r"
    using backup_records by blast
  then show "\<exists>item \<in> set (backup_paths E).
           source r = item_path (normalize_path_item item)
           \<and> source_expanded r = expand_path E (source r)"
    unfolding recorded_by_def by auto
next
  assume "\<not> backup_refused E destination w
        \<and> (\<forall>tr. \<not> io_fails E tr (WriteLedger (join (normpath E destination) METADATA_NAME)))"
  then show "fst (backup E destination w) = Inr True"
    by (simp add: backup_returns_true)
qed

lemma gone_fields:
  "normpath gone_env = (\<lambda>s. s)" "expandvars gone_env = (\<lambda>s. s)"
  "io_fails gone_env = (\<lambda>tr ev. False)" "now gone_env = ''2025-12-06T09:00:00''"
  "backup_paths gone_env = [PathStr ''C:/data/gone.txt'', note_item]"
  by (simp_all add: gone_env_def quiet_env_def)

lemma gone_not_refused: "\<not> backup_refused gone_env ''E:/bk'' gone_world"
  by (simp add: backup_refused_def gone_fields gone_world_def)

theorem C1_witness:
  "\<not> backup_refused gone_env ''E:/bk'' gone_world
   \<and> fst (backup gone_env ''E:/bk'' gone_world) = Inr True
   \<and> ledgers (wld (snd (backup gone_env ''E:/bk'' gone_world))) (join ''E:/bk'' METADATA_NAME)
       = Parsed \<lparr>backup_date = ''2025-12-06T09:00:00'',
                 paths = meta_paths (snd (backup gone_env ''E:/bk'' gone_world))\<rparr>
   \<and> length (meta_paths (snd (backup gone_env ''E:/bk'' gone_world)))
       = success_count (snd (backup gone_env ''E:/bk'' gone_world))"
proof -
  note t = C1_saved_ledger_holds_this_run_only [of gone_env "''E:/bk''" gone_world]
  have io: "\<forall>tr. \<not> io_fails gone_env tr (WriteLedger (join (normpath gone_env ''E:/bk'') METADATA_NAME))"
    by (simp add: gone_fields)
  have ok: "fst (backup gone_env ''E:/bk'' gone_world) = Inr True"
    using t gone_not_refused io by blast
  show ?thesis
    using t ok gone_not_refused by (simp add: gone_fields)
qed











subsection \<open>Folder names\<close>

lemma recorded_by_name:
  assumes "recorded_by E ex item r"
  shows "backup_name r =
           (if truthy (item_destination (normalize_path_item item))
            then the (item_destination (normalize_path_item item))
            else case ex (source_expanded r) of
                   Some name \<Rightarrow> name
                 | None \<Rightarrow> basename (dirname (source_expanded r)) @ ''_''
                             @ basename (source_expanded r))"
  using assms by (simp add: recorded_by_def resolve_backup_name_def)

lemma expand_path_cong:
  "normpath E' = normpath E \<Longrightarrow> expandvars E' = expandvars E \<Longrightarrow> expand_path E' = expand_path E"
  by (simp add: expand_path_def fun_eq_iff)

text \<open>
  C6. Every record of a run names a registered entry and carries the folder name given
  by the precedence: the fixed destination of the entry if there is one, else the name
  the loaded ledger holds for the expanded source, else \<open>parent_leaf\<close>. And when a source
  is registered without a fixed destination, a record of it in a run that saved its
  ledger and a record of it in the next run against that destination carry the same
  folder name.
\<close>

theorem C6_backup_name_precedence:
  "(\<forall>r \<in> set (meta_paths (snd (backup E destination w))).
      \<exists>item \<in> set (backup_paths E).
        source r = item_path (normalize_path_item item)
        \<and> source_expanded r = expand_path E (source r)
        \<and> backup_name r =
            (if truthy (item_destination (normalize_path_item item))
             then the (item_destination (normalize_path_item item))
             else case existing_backup_map w (join (normpath E destination) METADATA_NAME)
                         (source_expanded r) of
                    Some name \<Rightarrow> name
                  | None \<Rightarrow> basename (dirname (source_expanded r)) @ ''_''
                              @ basename (source_expanded r)))
   \<and> (fst (backup E destination w) = Inr True
       \<and> normpath E' = normpath E \<and> expandvars E' = expandvars E
       \<and> (\<forall>item \<in> set (backup_paths E).
             expand_path E (item_path (normalize_path_item item)) = p
             \<longrightarrow> \<not> truthy (item_destination (normalize_path_item item)))
       \<and> (\<forall>item \<in> set (backup_paths E').
             expand_path E' (item_path (normalize_path_item item)) = p
             \<longrightarrow> \<not> truthy (item_destination (normalize_path_item item)))
       \<and> r1 \<in> set (meta_paths (snd (backup E destination w))) \<and> source_expanded r1 = p
       \<and> r2 \<in> set (meta_paths (snd (backup E' destination (wld (snd (backup E destination w))))))
       \<and> source_expanded r2 = p
      \<longrightarrow> backup_name r2 = backup_name r1)"
proof (intro conjI ballI impI)
  fix r
  assume "r \<in> set (meta_paths (snd (backup E destination w)))"
  then obtain item where i: "item \<in> set (backup_paths E)"
    and rb: "recorded_by E (existing_backup_map w (join (normpath E destination) METADATA_NAME))
               item r"
    using backup_records by blast
  have "source r = item_path (normalize_path_item item)
        \<and> source_expanded r = expand_path E (source r)"
    using rb by (simp add: recorded_by_def)
  then show "\<exists>item \<in> set (backup_paths E).
        source r = item_path (normalize_path_item item)
        \<and> source_expanded r = expand_path E (source r)
        \<and> backup_name r =
            (if truthy (item_destination (normalize_path_item item))
             then the (item_destination (normalize_path_item item))
             else case existing_backup_map w (join (normpath E destination) METADATA_NAME)
                         (source_expanded r) of
                    Some name \<Rightarrow> name
                  | None \<Rightarrow> basename (dirname (source_expanded r)) @ ''_''
                              @ basename (source_expanded r))"
    using i recorded_by_name [OF rb] by blast
next
  let ?mf = "join (normpath E destination) METADATA_NAME"
  let ?run1 = "backup E destination w"
  let ?w1 = "wld (snd ?run1)"
  let ?ex1 = "existing_backup_map w ?mf"
  let ?N = "case ?ex1 p of Some name \<Rightarrow> name
            | None \<Rightarrow> basename (dirname p) @ ''_'' @ basename p"
  assume a: "fst (backup E destination w) = Inr True
       \<and> normpath E' = normpath E \<and> expandvars E' = expandvars E
       \<and> (\<forall>item \<in> set (backup_paths E).
             expand_path E (item_path (normalize_path_item item)) = p
             \<longrightarrow> \<not> truthy (item_destination (normalize_path_item item)))
       \<and> (\<forall>item \<in> set (backup_paths E').
             expand_path E' (item_path (normalize_path_item item)) = p
             \<longrightarrow> \<not> truthy (item_destination (normalize_path_item item)))
       \<and> r1 \<in> set (meta_paths (snd (backup E destination w))) \<and> source_expanded r1 = p
       \<and> r2 \<in> set (meta_paths (snd (backup E' destination (wld (snd (backup E destination w))))))
       \<and> source_expanded r2 = p"
  have first: "backup_name r = ?N"
    if "r \<in> set (meta_paths (snd ?run1))" and "source_expanded r = p" for r
  proof -
    from that(1) obtain item where i: "item \<in> set (backup_paths E)"
      and rb: "recorded_by E ?ex1 item r"
      using backup_records by blast
    have "expand_path E (item_path (normalize_path_item item)) = p"
      using rb that(2) by (simp add: recorded_by_def)
    then have "\<not> truthy (item_destination (normalize_path_item item))"
      using a i by blast
    then show ?thesis
      using recorded_by_name [OF rb] that(2) by (simp split: option.splits)
  qed
  have saved: "ledgers ?w1 ?mf = Parsed \<lparr>backup_date = now E, paths = meta_paths (snd ?run1)\<rparr>"
    using a by (simp add: backup_saved)
  have ex2: "existing_backup_map ?w1 ?mf p = Some ?N"
  proof (rule existing_backup_map_Parsed [OF saved])
    show "r1 \<in> set (paths \<lparr>backup_date = now E, paths = meta_paths (snd ?run1)\<rparr>)"
      using a by simp
    show "source_expanded r1 = p"
      using a by simp
    show "backup_name r = ?N"
      if "r \<in> set (paths \<lparr>backup_date = now E, paths = meta_paths (snd ?run1)\<rparr>)"
        and "source_expanded r = p" for r
      using that first by simp
  qed
  have mf': "join (normpath E' destination) METADATA_NAME = ?mf"
    using a by simp
  obtain item2 where i2: "item2 \<in> set (backup_paths E')"
    and rb2: "recorded_by E' (existing_backup_map ?w1 ?mf) item2 r2"
    using a backup_records [of r2 E' destination ?w1] unfolding mf' by blast
  have "expand_path E' (item_path (normalize_path_item item2)) = p"
    using rb2 a by (simp add: recorded_by_def)
  then have "\<not> truthy (item_destination (normalize_path_item item2))"
    using a i2 by blast
  then have "backup_name r2 = ?N"
    using recorded_by_name [OF rb2] a ex2 by simp
  moreover have "backup_name r1 = ?N"
    using first a by blast
  ultimately show "backup_name r2 = backup_name r1"
    by simp
qed

lemma note_fields:
  "normpath note_env = (\<lambda>s. s)" "expandvars note_env = (\<lambda>s. s)"
  "io_fails note_env = (\<lambda>tr ev. False)" "now note_env = ''2025-12-06T09:00:00''"
  "time_now note_env = 0" "backup_paths note_env = [note_item]"
  by (simp_all add: note_env_def quiet_env_def)

lemma join_bk_old: "join ''E:/bk'' ''notes_old'' = ''E:/bk'' @ [backslash] @ ''notes_old''"
  by code_simp

lemma renamed_first_run:
  "backup note_env ''E:/bk'' renamed_world =
     (Inr True,
      \<lparr>wld = \<lparr>trace = [MakeDirs ''E:/bk'',
                        CopyFile ''C:/docs/note.txt'' (join ''E:/bk'' ''notes_old''),
                        WriteLedger (join ''E:/bk'' METADATA_NAME)],
               files = (files renamed_world)
                         (''E:/bk'' \<mapsto> Dir 0 0 [],
                          join ''E:/bk'' ''notes_old'' \<mapsto> File ''hello'' 5),
               ledgers = (ledgers renamed_world)
                           (join ''E:/bk'' METADATA_NAME :=
                              Parsed \<lparr>backup_date = ''2025-12-06T09:00:00'',
                                      paths = [file_record ''C:/docs/note.txt'' ''notes_old'']\<rparr>)\<rparr>,
       success_count = 1, fail_count = 0,
       meta_paths = [file_record ''C:/docs/note.txt'' ''notes_old''],
       services_to_restart = []\<rparr>)"
  by (simp add: backup_def note_fields note_item_def backup_item_def pause_service_def truthy_def
      expand_path_def emit_def renamed_world_def restart_services_def
      existing_backup_map_def remember_def resolve_backup_name_def
      join_bk_old copy_item_def smart_copy2_def copy2_def Let_def file_record_def)

lemma renamed_second_run:
  "meta_paths (snd (backup note_env ''E:/bk'' (wld (snd (backup note_env ''E:/bk'' renamed_world)))))
     = [file_record ''C:/docs/note.txt'' ''notes_old'']"
  unfolding renamed_first_run
  by (simp add: backup_def note_fields note_item_def backup_item_def pause_service_def truthy_def
      expand_path_def emit_def renamed_world_def restart_services_def
      existing_backup_map_def remember_def resolve_backup_name_def
      join_bk_old copy_item_def smart_copy2_def copy2_def Let_def file_record_def py_int_def)

theorem C6_witness:
  "fst (backup note_env ''E:/bk'' renamed_world) = Inr True
   \<and> file_record ''C:/docs/note.txt'' ''notes_old''
       \<in> set (meta_paths (snd (backup note_env ''E:/bk'' renamed_world)))
   \<and> file_record ''C:/docs/note.txt'' ''notes_old''
       \<in> set (meta_paths (snd (backup note_env ''E:/bk''
                                  (wld (snd (backup note_env ''E:/bk'' renamed_world))))))
   \<and> existing_backup_map renamed_world (join ''E:/bk'' METADATA_NAME) ''C:/docs/note.txt''
       = Some ''notes_old''
   \<and> backup_name (hd (meta_paths (snd (backup note_env ''E:/bk''
                                          (wld (snd (backup note_env ''E:/bk'' renamed_world)))))))
       = backup_name (hd (meta_paths (snd (backup note_env ''E:/bk'' renamed_world))))"
proof -
  let ?r = "file_record ''C:/docs/note.txt'' ''notes_old''"
  let ?run1 = "backup note_env ''E:/bk'' renamed_world"
  let ?run2 = "backup note_env ''E:/bk'' (wld (snd ?run1))"
  have ok: "fst ?run1 = Inr True"
    by (simp add: renamed_first_run)
  have m1: "meta_paths (snd ?run1) = [?r]"
    by (simp add: renamed_first_run)
  have m2: "meta_paths (snd ?run2) = [?r]"
    by (rule renamed_second_run)
  have nd: "\<forall>item \<in> set (backup_paths note_env).
              expand_path note_env (item_path (normalize_path_item item)) = ''C:/docs/note.txt''
              \<longrightarrow> \<not> truthy (item_destination (normalize_path_item item))"
    by (simp add: note_fields note_item_def truthy_def)
  have se: "source_expanded ?r = ''C:/docs/note.txt''"
    by (simp add: file_record_def)
  note t = C6_backup_name_precedence
      [where E = note_env and E' = note_env and destination = "''E:/bk''" and w = renamed_world
        and p = "''C:/docs/note.txt''" and ?r1.0 = ?r and ?r2.0 = ?r]
  have same: "backup_name ?r = backup_name ?r"
    using t ok nd se m1 m2 by simp
  have ex: "existing_backup_map renamed_world (join ''E:/bk'' METADATA_NAME) ''C:/docs/note.txt''
       = Some ''notes_old''"
    by (simp add: existing_backup_map_def renamed_world_def remember_def file_record_def)
  show ?thesis
    using same ok ex by (simp add: m1 m2)
qed

subsection \<open>Paths\<close>

lemma tail_after_sep:
  assumes "list_all (\<lambda>c. \<not> is_sep c) n" and "x = [] \<or> is_sep (last x)"
  shows "rev (takeWhile (\<lambda>c. \<not> is_sep c) (rev (x @ n))) = n"
proof -
  have 1: "takeWhile (\<lambda>c. \<not> is_sep c) (rev x) = []"
    using assms(2) by (cases x rule: rev_cases) auto
  have 2: "\<forall>c \<in> set (rev n). \<not> is_sep c"
    using assms(1) by (simp add: list_all_iff)
  have "takeWhile (\<lambda>c. \<not> is_sep c) (rev n @ rev x) = rev n @ takeWhile (\<lambda>c. \<not> is_sep c) (rev x)"
    using 2 by (intro takeWhile_append2) auto
  then show ?thesis
    using 1 by simp
qed

lemma splitdrive_valid:
  assumes "valid_name n"
  shows "splitdrive n = ([], n)"
proof -
  have "\<forall>c \<in> set n. c \<noteq> CHR '':''"
    using assms by (simp add: valid_name_def list_all_iff)
  then have "2 \<le> length n \<Longrightarrow> n ! 1 \<noteq> CHR '':''"
    by (metis One_nat_def Suc_1 Suc_le_lessD nth_mem)
  then show ?thesis
    by (auto simp add: splitdrive_def)
qed

lemma basename_split:
  assumes "splitdrive j = (d, x @ n)" and "list_all (\<lambda>c. \<not> is_sep c) n"
    and "x = [] \<or> is_sep (last x)"
  shows "basename j = n"
  using assms tail_after_sep [OF assms(2,3)]
  by (simp add: basename_def split_path_def Let_def)

lemma join_valid:
  assumes "valid_name n"
  shows "join src n =
           fst (splitdrive src)
           @ (if snd (splitdrive src) \<noteq> [] \<and> \<not> is_sep (last (snd (splitdrive src)))
              then snd (splitdrive src) @ [backslash] else snd (splitdrive src))
           @ n"
proof -
  have "n \<noteq> []" and "\<not> is_sep (hd n)"
    using assms by (auto simp add: valid_name_def list_all_iff)
  then show ?thesis
    using splitdrive_valid [OF assms]
    by (simp add: join_def split_beta Let_def)
qed

lemma splitdrive_join_valid:
  assumes "valid_name n"
  shows "\<exists>d x. splitdrive (join src n) = (d, x @ n) \<and> (x = [] \<or> is_sep (last x))"
proof -
  define rp where "rp = snd (splitdrive src)"
  define x where "x = (if rp \<noteq> [] \<and> \<not> is_sep (last rp) then rp @ [backslash] else rp)"
  have j: "join src n = fst (splitdrive src) @ x @ n"
    unfolding x_def rp_def using join_valid [OF assms] by simp
  have x: "x = [] \<or> is_sep (last x)"
    unfolding x_def by (simp add: is_sep_def)
  have colon: "\<And>c. c \<in> set n \<Longrightarrow> c \<noteq> CHR '':''" and ne: "n \<noteq> []"
    using assms by (simp_all add: valid_name_def list_all_iff)
  show ?thesis
  proof (cases "2 \<le> length src \<and> src ! 1 = CHR '':''")
    case True
    then have sd: "splitdrive src = (take 2 src, drop 2 src)"
      by (simp add: splitdrive_def)
    define d where "d = take 2 src"
    have l: "length d = 2"
      unfolding d_def using True by simp
    have d1: "d ! 1 = CHR '':''"
      unfolding d_def using True by simp
    have "(d @ x @ n) ! 1 = CHR '':''"
      using l d1 by (simp add: nth_append)
    moreover have "2 \<le> length (d @ x @ n)"
      using l by simp
    moreover have "take 2 (d @ x @ n) = d" "drop 2 (d @ x @ n) = x @ n"
      using l by simp_all
    ultimately have "splitdrive (d @ x @ n) = (d, x @ n)"
      unfolding splitdrive_def by simp
    moreover have "join src n = d @ x @ n"
      using j sd d_def by simp
    ultimately have "splitdrive (join src n) = (d, x @ n)"
      by simp
    then show ?thesis
      using x by blast
  next
    case False
    then have sd: "splitdrive src = ([], src)"
      unfolding splitdrive_def by auto
    have j': "join src n = x @ n"
      using j sd by simp
    have rp: "rp = src"
      unfolding rp_def using sd by simp
    have x': "x = src \<or> x = src @ [backslash]"
      unfolding x_def rp by simp
    have nocolon: "\<not> (2 \<le> length (x @ n) \<and> (x @ n) ! 1 = CHR '':'')"
    proof
      assume a: "2 \<le> length (x @ n) \<and> (x @ n) ! 1 = CHR '':''"
      consider "length x = 0" | "length x = 1" | "2 \<le> length x"
        by linarith
      then show False
      proof cases
        case 1
        then have "n ! 1 = CHR '':''" and "1 < length n"
          using a by auto
        then show False
          using colon [of "n ! 1"] nth_mem [of 1 n] by simp
      next
        case 2
        then have "n ! 0 = CHR '':''"
          using a by (simp add: nth_append)
        moreover have "n ! 0 \<in> set n"
          using ne by simp
        ultimately show False
          using colon [of "n ! 0"] by simp
      next
        case 3
        then have c: "x ! 1 = CHR '':''"
          using a by (simp add: nth_append)
        from x' show False
        proof
          assume "x = src"
          then show False
            using 3 c False by simp
        next
          assume e: "x = src @ [backslash]"
          show False
          proof (cases "2 \<le> length src")
            case True
            then have "src ! 1 = CHR '':''"
              using c e by (simp add: nth_append)
            then show False
              using True False by simp
          next
            case F: False
            then have "length src = 1"
              using 3 e by simp
            then have "(src @ [backslash]) ! 1 = backslash"
              by (simp add: nth_append)
            then show False
              using c e by (simp add: backslash_def)
          qed
        qed
      qed
    qed
    then have "splitdrive (x @ n) = ([], x @ n)"
      unfolding splitdrive_def by auto
    then have "splitdrive (join src n) = ([], x @ n)"
      using j' by simp
    then show ?thesis
      using x by blast
  qed
qed

lemma basename_join:
  assumes "valid_name n"
  shows "basename (join src n) = n"
proof -
  obtain d x where 1: "splitdrive (join src n) = (d, x @ n)" and 2: "x = [] \<or> is_sep (last x)"
    using splitdrive_join_valid [OF assms] by blast
  have 3: "list_all (\<lambda>c. \<not> is_sep c) n"
    using assms by (simp add: valid_name_def list_all_iff)
  show ?thesis
    using 1 3 2 by (rule basename_split)
qed

subsection \<open>Directory copies\<close>

lemma entry_paths_Dir [simp]: "entry_paths (Dir s m es) = entries_paths es"
  by (simp add: entries_paths_def)

declare entry_paths.simps(2) [simp del]

lemma in_entries_paths:
  "p \<in> set (entries_paths es) \<longleftrightarrow>
     (\<exists>(n, c) \<in> set es. p = [n] \<or> p \<in> (#) n ` set (entry_paths c))"
  by (auto simp add: entries_paths_def)

lemma set_update_subset: "set (AList.update k v al) \<subseteq> insert (k, v) (set al)"
  by (induction al) auto

lemma update_paths:
  assumes "p \<in> set (entries_paths (AList.update k v des))"
  shows "p \<in> set (entries_paths des) \<or> p = [k] \<or> p \<in> (#) k ` set (entry_paths v)"
proof -
  from assms obtain n c where nc: "(n, c) \<in> set (AList.update k v des)"
    and p: "p = [n] \<or> p \<in> (#) n ` set (entry_paths c)"
    unfolding in_entries_paths by blast
  from nc have "(n, c) = (k, v) \<or> (n, c) \<in> set des"
    using set_update_subset by fastforce
  then show ?thesis
    using p unfolding in_entries_paths by blast
qed

lemma child_paths:
  assumes "map_of des k = Some old" and "q \<in> set (entry_paths old)"
  shows "k # q \<in> set (entries_paths des)"
proof -
  have "(k, old) \<in> set des"
    using assms(1) by (rule map_of_SomeD)
  then show ?thesis
    using assms(2) unfolding in_entries_paths by blast
qed

lemma created_ok_refl: "created_ok X old old"
  by (simp add: created_ok_def)

lemma created_ok_trans:
  "created_ok X a b \<Longrightarrow> created_ok X b c \<Longrightarrow> created_ok X a c"
  unfolding created_ok_def by blast

lemma update_created:
  assumes "k \<notin> X"
    and "created_ok X (entry_paths_opt (map_of des k)) (entry_paths v)"
  shows "created_ok X (entries_paths des) (entries_paths (AList.update k v des))"
  unfolding created_ok_def
proof
  fix p
  assume "p \<in> set (entries_paths (AList.update k v des))"
  then consider "p \<in> set (entries_paths des)" | "p = [k]"
    | q where "q \<in> set (entry_paths v)" "p = k # q"
    using update_paths by blast
  then show "p \<in> set (entries_paths des) \<or> last p \<notin> X"
  proof cases
    case 1
    then show ?thesis by simp
  next
    case 2
    then show ?thesis using assms(1) by simp
  next
    case 3
    from 3(1) assms(2) have "q \<in> set (entry_paths_opt (map_of des k)) \<or> last q \<notin> X"
      unfolding created_ok_def by blast
    then show ?thesis
    proof
      assume "q \<in> set (entry_paths_opt (map_of des k))"
      then obtain old where "map_of des k = Some old" "q \<in> set (entry_paths old)"
        by (cases "map_of des k") (auto simp add: entry_paths_opt_def)
      then show ?thesis
        using 3(2) child_paths by blast
    next
      assume "last q \<notin> X"
      then show ?thesis
        using 3(2) assms(1) by simp
    qed
  qed
qed

lemma copy2_paths:
  assumes "copy2 E tr src dst s d = Inr n" and "q \<in> set (entry_paths n)"
  shows "q \<in> set (entry_paths_opt d) \<or> q = [basename src]"
proof -
  from assms(1) obtain c m where s: "s = File c m"
    by (cases s) (auto simp add: copy2_def split: if_splits)
  show ?thesis
  proof (cases d)
    case None
    then show ?thesis
      using assms s by (auto simp add: copy2_def split: if_splits)
  next
    case (Some dn)
    show ?thesis
    proof (cases dn)
      case (File c' m')
      then show ?thesis
        using assms s Some by (auto simp add: copy2_def split: if_splits)
    next
      case (Dir dsz dm des)
      from assms(1) s Some Dir obtain t where
        n: "n = Dir dsz t (AList.update (basename src) (File c m) des)"
        by (auto simp add: copy2_def split: if_splits option.splits node.splits)
      from assms(2) have "q \<in> set (entries_paths (AList.update (basename src) (File c m) des))"
        by (simp add: n)
      then have "q \<in> set (entries_paths des) \<or> q = [basename src]"
        using update_paths [of q "basename src" "File c m" des] by auto
      then show ?thesis
        using Some Dir by (simp add: entry_paths_opt_def)
    qed
  qed
qed

lemma smart_copy2_paths:
  assumes "smart_copy2 E tr src dst s d = Inr n" and "q \<in> set (entry_paths n)"
  shows "q \<in> set (entry_paths_opt d) \<or> q = [basename src]"
proof (cases "unchanged s d")
  case True
  then obtain dn where "d = Some dn"
    by (auto simp add: unchanged_def split: option.splits)
  then show ?thesis
    using True assms by (simp add: smart_copy2_cases entry_paths_opt_def)
next
  case False
  then show ?thesis
    using assms copy2_paths by (simp add: smart_copy2_cases)
qed

lemma smart_copy2_created:
  assumes "valid_name name" and "name \<notin> X"
    and "smart_copy2 E tr (join src name) dst' s d = Inr n"
  shows "created_ok X (entry_paths_opt d) (entry_paths n)"
  unfolding created_ok_def
  using smart_copy2_paths [OF assms(3)] basename_join [OF assms(1)] assms(2) by fastforce

lemma entry_paths_opt_simps [simp]:
  "entry_paths_opt None = []" "entry_paths_opt (Some n) = entry_paths n"
  by (simp_all add: entry_paths_opt_def)

lemma entries_paths_Nil [simp]: "entries_paths [] = []"
  by (simp add: entries_paths_def)

lemma ignored_by_make_ignore_func:
  "n \<in> set names \<Longrightarrow> n \<in> all_excludes xs \<Longrightarrow> n \<in> set (make_ignore_func xs directory names)"
  by (simp add: make_ignore_func_def)

lemma copy_created:
  shows "ignore = Some (make_ignore_func (Some excl)) \<Longrightarrow> copy_function = smart_copy2 E tr \<Longrightarrow>
         valid_names s \<Longrightarrow>
         created_ok (all_excludes (Some excl)) (entry_paths_opt d)
           (entry_paths_opt (snd (copytree E tr ignore copy_function deo src dst s d)))"
    and "ignore = Some (make_ignore_func (Some excl)) \<Longrightarrow> copy_function = smart_copy2 E tr \<Longrightarrow>
         list_all (\<lambda>(n, c). valid_name n \<and> valid_names c) entries \<Longrightarrow>
         (\<forall>(n, c) \<in> set entries. n \<in> all_excludes (Some excl) \<longrightarrow> n \<in> set ignored_names) \<Longrightarrow>
         created_ok (all_excludes (Some excl)) (entries_paths des)
           (entries_paths
              (snd (copy_entries E tr ignore copy_function deo ignored_names src dst entries des)))"
proof (induction E tr ignore copy_function deo src dst s d
        and E tr ignore copy_function deo ignored_names src dst entries des
        rule: copytree_copy_entries.induct)
  case (1 E tr ignore copy_function dirs_exist_ok src dst c m d)
  show ?case
    by (simp add: created_ok_refl)
next
  case (2 E tr ignore copy_function dirs_exist_ok src dst ssz sm entries d)
  let ?X = "all_excludes (Some excl)"
  let ?ig = "make_ignore_func (Some excl) src (map fst entries)"
  have ig: "(case ignore of None \<Rightarrow> [] | Some f \<Rightarrow> f src (map fst entries)) = ?ig"
    using "2.prems"(1) by simp
  have valid: "list_all (\<lambda>(n, c). valid_name n \<and> valid_names c) entries"
    using "2.prems"(3) by simp
  have covered: "\<forall>(n, c) \<in> set entries. n \<in> ?X \<longrightarrow> n \<in> set ?ig"
    by (auto intro!: ignored_by_make_ignore_func) (force)
  show ?case
  proof (cases d)
    case None
    show ?thesis
    proof (cases "io_fails E tr (MakeDirs dst)")
      case True
      then show ?thesis
        using None by (simp add: created_ok_refl)
    next
      case False
      have "created_ok ?X (entries_paths [])
              (entries_paths (snd (copy_entries E tr ignore copy_function dirs_exist_ok ?ig
                                     src dst entries [])))"
        using "2.IH"(1) [OF ig [symmetric] None False "2.prems"(1,2) valid covered] .
      then show ?thesis
        using None False ig by (simp add: split_beta Let_def)
    qed
  next
    case (Some dn)
    show ?thesis
    proof (cases dn)
      case (File c m)
      then show ?thesis
        using Some by (simp add: created_ok_refl)
    next
      case (Dir dsz dm des)
      show ?thesis
      proof (cases dirs_exist_ok)
        case False
        then show ?thesis
          using Some Dir by (simp add: created_ok_refl)
      next
        case True
        then have nn: "\<not> \<not> dirs_exist_ok"
          by simp
        have "created_ok ?X (entries_paths des)
                (entries_paths (snd (copy_entries E tr ignore copy_function dirs_exist_ok ?ig
                                       src dst entries des)))"
          using "2.IH"(2) [OF ig [symmetric] Some Dir nn "2.prems"(1,2) valid covered] .
        then show ?thesis
          using Some Dir True ig by (simp add: split_beta Let_def)
      qed
    qed
  qed
next
  case (3 E tr ignore copy_function dirs_exist_ok ignored_names src dst des)
  show ?case
    by (simp add: created_ok_refl)
next
  case (4 E tr ignore copy_function dirs_exist_ok ignored_names src dst name c m rest des)
  let ?X = "all_excludes (Some excl)"
  have valid: "list_all (\<lambda>(n, c). valid_name n \<and> valid_names c) rest" and vn: "valid_name name"
    using "4.prems"(3) by simp_all
  have covered: "\<forall>(n, c) \<in> set rest. n \<in> ?X \<longrightarrow> n \<in> set ignored_names"
    using "4.prems"(4) by simp
  show ?case
  proof (cases "name \<in> set ignored_names")
    case True
    then show ?thesis
      using "4.IH"(1) [OF True "4.prems"(1,2) valid covered] by simp
  next
    case False
    then have nx: "name \<notin> ?X"
      using "4.prems"(4) by auto
    show ?thesis
    proof (cases "copy_function (join src name) (join dst name) (File c m) (map_of des name)")
      case (Inl a)
      then show ?thesis
        using False "4.IH"(2) [OF False Inl "4.prems"(1,2) valid covered] by simp
    next
      case (Inr b)
      have "smart_copy2 E tr (join src name) (join dst name) (File c m) (map_of des name) = Inr b"
        using Inr "4.prems"(2) by simp
      then have "created_ok ?X (entry_paths_opt (map_of des name)) (entry_paths b)"
        using vn nx by (rule smart_copy2_created [rotated 2])
      then have 1: "created_ok ?X (entries_paths des) (entries_paths (AList.update name b des))"
        using nx by (rule update_created [rotated])
      have 2: "created_ok ?X (entries_paths (AList.update name b des))
                 (entries_paths (snd (copy_entries E tr ignore copy_function dirs_exist_ok
                                        ignored_names src dst rest (AList.update name b des))))"
        using "4.IH"(3) [OF False Inr "4.prems"(1,2) valid covered] .
      show ?thesis
        using False Inr created_ok_trans [OF 1 2] by simp
    qed
  qed
next
  case (5 E tr ignore copy_function dirs_exist_ok ignored_names src dst name csz cm ces rest des)
  let ?X = "all_excludes (Some excl)"
  let ?sub = "copytree E tr ignore copy_function dirs_exist_ok (join src name) (join dst name)
                (Dir csz cm ces) (map_of des name)"
  let ?des1 = "case snd ?sub of None \<Rightarrow> des | Some n \<Rightarrow> AList.update name n des"
  have valid: "list_all (\<lambda>(n, c). valid_name n \<and> valid_names c) rest"
    and vn: "valid_name name" and vc: "valid_names (Dir csz cm ces)"
    using "5.prems"(3) by simp_all
  have covered: "\<forall>(n, c) \<in> set rest. n \<in> ?X \<longrightarrow> n \<in> set ignored_names"
    using "5.prems"(4) by simp
  show ?case
  proof (cases "name \<in> set ignored_names")
    case True
    then show ?thesis
      using "5.IH"(1) [OF True "5.prems"(1,2) valid covered] by simp
  next
    case False
    then have nx: "name \<notin> ?X"
      using "5.prems"(4) by auto
    have sub: "created_ok ?X (entry_paths_opt (map_of des name)) (entry_paths_opt (snd ?sub))"
      using "5.IH"(2) [OF False "5.prems"(1,2) vc] .
    have 1: "created_ok ?X (entries_paths des) (entries_paths ?des1)"
    proof (cases "snd ?sub")
      case None
      then show ?thesis
        by (simp add: created_ok_refl)
    next
      case (Some n)
      then have "created_ok ?X (entry_paths_opt (map_of des name)) (entry_paths n)"
        using sub by simp
      then have "created_ok ?X (entries_paths des) (entries_paths (AList.update name n des))"
        using nx by (rule update_created [rotated])
      then show ?thesis
        using Some by simp
    qed
    have 2: "created_ok ?X (entries_paths ?des1)
               (entries_paths (snd (copy_entries E tr ignore copy_function dirs_exist_ok
                                      ignored_names src dst rest ?des1)))"
      using "5.IH"(3) [OF False refl prod.collapse refl "5.prems"(1,2) valid covered] .
    show ?thesis
      using False created_ok_trans [OF 1 2] by (simp add: split_beta Let_def)
  qed
qed

lemma copy_item_dir_files:
  assumes "files (wld st) p = Some (Dir sz m es)"
  shows "files (wld (copy_item E info p fn dp st)) dp
         = snd (copytree E (trace (wld st)) (Some (make_ignore_func (Some (item_exclude info))))
                  (smart_copy2 E (trace (wld st))) True p dp (Dir sz m es) (files (wld st) dp))"
  using assms by (simp add: copy_item_def Let_def split_beta emit_def)

text \<open>
  C9. For the backup of a directory the names ignored are the fixed baseline together
  with the names the entry supplies; the filter \<^verbatim>\<open>copytree\<close> calls at every directory
  keeps exactly the listed names that are in this set, whatever the directory. So every
  entry found in the destination tree after the copy was there before or has a name
  outside the set, at any depth. The names of the source tree are taken to be names a
  directory entry can have.
\<close>

theorem C9_excluded_names_never_created:
  assumes "files (wld st) p = Some (Dir sz m es)" and "valid_names (Dir sz m es)"
  shows "all_excludes (Some (item_exclude info))
           = set DEFAULT_EXCLUDE_FILES \<union> set (item_exclude info)
       \<and> (\<forall>directory names.
             make_ignore_func (Some (item_exclude info)) directory names
               = filter (\<lambda>f. f \<in> set DEFAULT_EXCLUDE_FILES \<union> set (item_exclude info)) names)
       \<and> (\<forall>q \<in> set (entry_paths_opt (files (wld (copy_item E info p fn dp st)) dp)).
             q \<in> set (entry_paths_opt (files (wld st) dp))
             \<or> last q \<notin> set DEFAULT_EXCLUDE_FILES \<union> set (item_exclude info))"
proof -
  have x: "all_excludes (Some (item_exclude info))
             = set DEFAULT_EXCLUDE_FILES \<union> set (item_exclude info)"
    by (simp add: all_excludes_def)
  have ig: "\<forall>directory names.
             make_ignore_func (Some (item_exclude info)) directory names
               = filter (\<lambda>f. f \<in> set DEFAULT_EXCLUDE_FILES \<union> set (item_exclude info)) names"
    by (simp add: make_ignore_func_def x)
  have "created_ok (all_excludes (Some (item_exclude info)))
          (entry_paths_opt (files (wld st) dp))
          (entry_paths_opt (files (wld (copy_item E info p fn dp st)) dp))"
    unfolding copy_item_dir_files [OF assms(1)]
    by (rule copy_created(1) [OF refl refl assms(2)])
  then have "\<forall>q \<in> set (entry_paths_opt (files (wld (copy_item E info p fn dp st)) dp)).
             q \<in> set (entry_paths_opt (files (wld st) dp))
             \<or> last q \<notin> set DEFAULT_EXCLUDE_FILES \<union> set (item_exclude info)"
    unfolding created_ok_def x .
  then show ?thesis
    using x ig by blast
qed

lemma proj_valid: "valid_names proj_tree"
  by (simp add: proj_tree_def valid_name_def is_sep_def backslash_def)

lemma proj_copied:
  "files (wld (copy_item quiet_env proj_info ''C:/proj'' ''x_proj'' ''E:/bk/x_proj''
                 (fresh_run proj_world))) ''E:/bk/x_proj''
   = Some (Dir 0 1 [(''sub'', Dir 0 1 [(''keep.txt'', File ''z'' 1)])])"
  by (simp add: copy_item_def fresh_run_def proj_world_def proj_tree_def proj_info_def Let_def
      make_ignore_func_def all_excludes_def DEFAULT_EXCLUDE_FILES_def smart_copy2_def copy2_def
      quiet_fields emit_def)

theorem C9_witness:
  "valid_names proj_tree
   \<and> files (wld (copy_item quiet_env proj_info ''C:/proj'' ''x_proj'' ''E:/bk/x_proj''
                   (fresh_run proj_world))) ''E:/bk/x_proj''
       = Some (Dir 0 1 [(''sub'', Dir 0 1 [(''keep.txt'', File ''z'' 1)])])
   \<and> [''sub'', ''keep.txt'']
       \<in> set (entry_paths_opt
                (files (wld (copy_item quiet_env proj_info ''C:/proj'' ''x_proj'' ''E:/bk/x_proj''
                               (fresh_run proj_world))) ''E:/bk/x_proj''))
   \<and> last [''sub'', ''keep.txt''] \<notin> set DEFAULT_EXCLUDE_FILES \<union> set (item_exclude proj_info)
   \<and> [''sub'', ''cache'']
       \<notin> set (entry_paths_opt
                (files (wld (copy_item quiet_env proj_info ''C:/proj'' ''x_proj'' ''E:/bk/x_proj''
                               (fresh_run proj_world))) ''E:/bk/x_proj''))"
proof -
  let ?st = "fresh_run proj_world"
  let ?new = "files (wld (copy_item quiet_env proj_info ''C:/proj'' ''x_proj'' ''E:/bk/x_proj'' ?st))
                ''E:/bk/x_proj''"
  have src: "files (wld ?st) ''C:/proj'' = Some (Dir 0 1
       [(''cache'', Dir 0 1 [(''a.tmp'', File ''x'' 1)]),
        (''sub'', Dir 0 1 [(''cache'', File ''y'' 1), (''keep.txt'', File ''z'' 1),
                          (''Thumbs.db'', File ''t'' 1)])])"
    by (simp add: fresh_run_def proj_world_def proj_tree_def)
  have v: "valid_names (Dir 0 1
       [(''cache'', Dir 0 1 [(''a.tmp'', File ''x'' 1)]),
        (''sub'', Dir 0 1 [(''cache'', File ''y'' 1), (''keep.txt'', File ''z'' 1),
                          (''Thumbs.db'', File ''t'' 1)])])"
    using proj_valid by (simp add: proj_tree_def)
  note t = C9_excluded_names_never_created
      [OF src v, where E = quiet_env and info = proj_info and fn = "''x_proj''"
        and dp = "''E:/bk/x_proj''"]
  have old: "entry_paths_opt (files (wld ?st) ''E:/bk/x_proj'') = []"
    by (simp add: fresh_run_def proj_world_def)
  have paths: "entry_paths_opt ?new = [[''sub''], [''sub'', ''keep.txt'']]"
    by (simp add: proj_copied entries_paths_def)
  have mem: "[''sub'', ''keep.txt''] \<in> set (entry_paths_opt ?new)"
    by (simp add: paths)
  have ok: "last [''sub'', ''keep.txt'']
              \<notin> set DEFAULT_EXCLUDE_FILES \<union> set (item_exclude proj_info)"
    using t [THEN conjunct2, THEN conjunct2] mem unfolding old by fastforce
  have absent: "[''sub'', ''cache''] \<notin> set (entry_paths_opt ?new)"
    by (simp add: paths)
  show ?thesis
    using proj_valid proj_copied mem ok absent by blast
qed

end
